theory Spec2Isabelle
  imports Main
begin

section \<open>Python strings\<close>

text \<open>
  A Python \<^verbatim>\<open>str\<close> is a sequence of Unicode code points; it is modelled as a list of
  natural numbers, one per code point.  \<open>ustr\<close> reads an ASCII literal as such a list.
  A \<^verbatim>\<open>bytes\<close> value is a list of numbers below 256.
\<close>

type_synonym pystr = "nat list"

type_synonym pybytes = "nat list"

abbreviation ustr :: "string \<Rightarrow> pystr" where
  "ustr s \<equiv> map of_char s"

text \<open>The exceptions the rewriting code can meet: \<^verbatim>\<open>ValueError\<close> from
  \<^verbatim>\<open>urljoin\<close>, \<^verbatim>\<open>UnicodeEncodeError\<close> from \<^verbatim>\<open>quote\<close>, and a failure to read
  the body of the upstream response (\<^verbatim>\<open>r.text\<close>).\<close>

datatype exn = ValueError | UnicodeEncodeError | ReadError

subsection \<open>Methods of \<^verbatim>\<open>str\<close>\<close>

definition startswith :: "pystr \<Rightarrow> pystr \<Rightarrow> bool" where
  "startswith s p = (take (length p) s = p)"

definition endswith :: "pystr \<Rightarrow> pystr \<Rightarrow> bool" where
  "endswith s p = (length p \<le> length s \<and> drop (length s - length p) s = p)"

text \<open>\<^verbatim>\<open>sub in s\<close>: \<open>sub\<close> occurs in \<open>s\<close> as a contiguous run.\<close>

fun contains :: "pystr \<Rightarrow> pystr \<Rightarrow> bool" where
  "contains sub [] = (sub = [])"
| "contains sub (c # cs) = (startswith (c # cs) sub \<or> contains sub cs)"

text \<open>\<^verbatim>\<open>str.lower()\<close>.  In a string of ASCII characters the letters \<^verbatim>\<open>A\<close> to
  \<^verbatim>\<open>Z\<close> are mapped and nothing else changes.  A string with a code point from 128 on
  is lower-cased by the case tables and the context rules of the Unicode database; they
  are not reproduced here and are the parameter \<open>ul\<close>, which stands for \<^verbatim>\<open>str.lower\<close> on
  such strings.\<close>

definition lower_cp :: "nat \<Rightarrow> nat" where
  "lower_cp c = (if 65 \<le> c \<and> c \<le> 90 then c + 32 else c)"

definition lower :: "(pystr \<Rightarrow> pystr) \<Rightarrow> pystr \<Rightarrow> pystr" where
  "lower ul s = (if list_all (\<lambda>c. c < 128) s then map lower_cp s else ul s)"

text \<open>\<^verbatim>\<open>str.isspace\<close> on one code point: the white space of the Unicode database.\<close>

definition isspace :: "nat \<Rightarrow> bool" where
  "isspace c = ((9 \<le> c \<and> c \<le> 13) \<or> (28 \<le> c \<and> c \<le> 32) \<or> c = 133 \<or> c = 160
     \<or> c = 5760 \<or> (8192 \<le> c \<and> c \<le> 8202) \<or> c = 8232 \<or> c = 8233 \<or> c = 8239
     \<or> c = 8287 \<or> c = 12288)"

text \<open>\<^verbatim>\<open>str.strip()\<close> with no argument.\<close>

definition strip :: "pystr \<Rightarrow> pystr" where
  "strip s = rev (dropWhile isspace (rev (dropWhile isspace s)))"

text \<open>The line boundaries of \<^verbatim>\<open>str.splitlines\<close>: LF, VT, FF, CR, FS, GS, RS, NEL,
  LINE SEPARATOR and PARAGRAPH SEPARATOR; CR LF counts as one boundary.\<close>

definition is_linebreak :: "nat \<Rightarrow> bool" where
  "is_linebreak c = (c = 10 \<or> c = 11 \<or> c = 12 \<or> c = 13 \<or> c = 28 \<or> c = 29 \<or> c = 30
     \<or> c = 133 \<or> c = 8232 \<or> c = 8233)"

text \<open>\<^verbatim>\<open>str.splitlines()\<close>: the first argument is the line read so far.  A text that
  ends in a line boundary gets no empty last line.\<close>

fun splitlines_from :: "pystr \<Rightarrow> pystr \<Rightarrow> pystr list" where
  "splitlines_from cur [] = (if cur = [] then [] else [cur])"
| "splitlines_from cur [c] =
     (if is_linebreak c then [cur] else [cur @ [c]])"
| "splitlines_from cur (c # d # ds) =
     (if is_linebreak c
      then cur # (if c = 13 \<and> d = 10 then splitlines_from [] ds
                  else splitlines_from [] (d # ds))
      else splitlines_from (cur @ [c]) (d # ds))"

definition splitlines :: "pystr \<Rightarrow> pystr list" where
  "splitlines s = splitlines_from [] s"

text \<open>\<^verbatim>\<open>s.split(sep)\<close> for a separator of one character: always at least one piece.\<close>

fun split_from :: "nat \<Rightarrow> pystr \<Rightarrow> pystr \<Rightarrow> pystr list" where
  "split_from sep cur [] = [cur]"
| "split_from sep cur (c # cs) =
     (if c = sep then cur # split_from sep [] cs else split_from sep (cur @ [c]) cs)"

definition str_split :: "pystr \<Rightarrow> nat \<Rightarrow> pystr list" where
  "str_split s sep = split_from sep [] s"

text \<open>\<^verbatim>\<open>s.split(sep, 1)\<close>: cut at the first separator only.\<close>

definition split1 :: "pystr \<Rightarrow> nat \<Rightarrow> pystr list" where
  "split1 s sep =
     (if sep \<in> set s
      then [takeWhile (\<lambda>c. c \<noteq> sep) s, tl (dropWhile (\<lambda>c. c \<noteq> sep) s)]
      else [s])"

text \<open>\<^verbatim>\<open>s.rsplit(sep, 1)\<close>: cut at the last separator only.\<close>

definition rsplit1 :: "pystr \<Rightarrow> nat \<Rightarrow> pystr list" where
  "rsplit1 s sep =
     (if sep \<in> set s
      then [rev (tl (dropWhile (\<lambda>c. c \<noteq> sep) (rev s))), rev (takeWhile (\<lambda>c. c \<noteq> sep) (rev s))]
      else [s])"

text \<open>\<^verbatim>\<open>sep.join(xs)\<close>.\<close>

fun join :: "pystr \<Rightarrow> pystr list \<Rightarrow> pystr" where
  "join sep [] = []"
| "join sep [x] = x"
| "join sep (x # y # ys) = x @ sep @ join sep (y # ys)"

section \<open>UTF-8\<close>

text \<open>\<^verbatim>\<open>str.encode('utf-8', 'strict')\<close>.  A surrogate (D800 to DFFF) has no encoding and
  raises \<^verbatim>\<open>UnicodeEncodeError\<close>.  A number from 110000 (hexadecimal) on is no code point
  and no \<^verbatim>\<open>str\<close> holds one; the embedding gives it the same error.\<close>

definition utf8_encode_cp :: "nat \<Rightarrow> exn + pybytes" where
  "utf8_encode_cp c =
     (if c < 128 then Inr [c]
      else if c < 2048 then Inr [192 + c div 64, 128 + c mod 64]
      else if c < 65536 then
        (if 55296 \<le> c \<and> c \<le> 57343 then Inl UnicodeEncodeError
         else Inr [224 + c div 4096, 128 + (c div 64) mod 64, 128 + c mod 64])
      else if c < 1114112 then
        Inr [240 + c div 262144, 128 + (c div 4096) mod 64, 128 + (c div 64) mod 64,
             128 + c mod 64]
      else Inl UnicodeEncodeError)"

fun utf8_encode :: "pystr \<Rightarrow> exn + pybytes" where
  "utf8_encode [] = Inr []"
| "utf8_encode (c # cs) =
     (case utf8_encode_cp c of
        Inl e \<Rightarrow> Inl e
      | Inr bs \<Rightarrow> (case utf8_encode cs of Inl e \<Rightarrow> Inl e | Inr r \<Rightarrow> Inr (bs @ r)))"

definition is_cont :: "nat \<Rightarrow> bool" where
  "is_cont b = (128 \<le> b \<and> b < 192)"

text \<open>\<^verbatim>\<open>bytes.decode('utf-8', 'replace')\<close>: every ill-formed run of bytes becomes one
  U+FFFD (65533).  A wrong start byte costs one byte; a start byte whose first, second or
  third continuation byte is wrong costs the bytes before the wrong one; a sequence cut
  off by the end of the data costs all that is left.\<close>

fun utf8_decode :: "pybytes \<Rightarrow> pystr" where
  "utf8_decode [] = []"
| "utf8_decode (b # bs) =
     (if b < 128 then b # utf8_decode bs
      else if b < 194 then 65533 # utf8_decode bs
      else if b < 224 then
        (case bs of
           [] \<Rightarrow> [65533]
         | b2 # r2 \<Rightarrow>
             if is_cont b2 then ((b - 192) * 64 + (b2 - 128)) # utf8_decode r2
             else 65533 # utf8_decode bs)
      else if b < 240 then
        (case bs of
           [] \<Rightarrow> [65533]
         | b2 # r2 \<Rightarrow>
             if \<not> is_cont b2 \<or> (if b2 < 160 then b = 224 else b = 237)
             then 65533 # utf8_decode bs
             else (case r2 of
                     [] \<Rightarrow> [65533]
                   | b3 # r3 \<Rightarrow>
                       if \<not> is_cont b3 then 65533 # utf8_decode r2
                       else ((b - 224) * 4096 + (b2 - 128) * 64 + (b3 - 128))
                              # utf8_decode r3))
      else if b < 245 then
        (case bs of
           [] \<Rightarrow> [65533]
         | b2 # r2 \<Rightarrow>
             if \<not> is_cont b2 \<or> (if b2 < 144 then b = 240 else b = 244)
             then 65533 # utf8_decode bs
             else (case r2 of
                     [] \<Rightarrow> [65533]
                   | b3 # r3 \<Rightarrow>
                       if \<not> is_cont b3 then 65533 # utf8_decode r2
                       else (case r3 of
                               [] \<Rightarrow> [65533]
                             | b4 # r4 \<Rightarrow>
                                 if \<not> is_cont b4 then 65533 # utf8_decode r3
                                 else ((b - 240) * 262144 + (b2 - 128) * 4096
                                        + (b3 - 128) * 64 + (b4 - 128))
                                        # utf8_decode r4)))
      else 65533 # utf8_decode bs)"

section \<open>\<^verbatim>\<open>urllib.parse\<close>: quoting\<close>

definition is_upper :: "nat \<Rightarrow> bool" where
  "is_upper c = (65 \<le> c \<and> c \<le> 90)"

definition is_lower :: "nat \<Rightarrow> bool" where
  "is_lower c = (97 \<le> c \<and> c \<le> 122)"

definition is_digit :: "nat \<Rightarrow> bool" where
  "is_digit c = (48 \<le> c \<and> c \<le> 57)"

text \<open>\<^verbatim>\<open>_ALWAYS_SAFE\<close>: the letters, the digits and \<^verbatim>\<open>_.-~\<close>.\<close>

definition always_safe :: "nat \<Rightarrow> bool" where
  "always_safe b = (is_upper b \<or> is_lower b \<or> is_digit b
     \<or> b = 95 \<or> b = 46 \<or> b = 45 \<or> b = 126)"

definition hexdigit :: "nat \<Rightarrow> nat" where
  "hexdigit n = (if n < 10 then 48 + n else 55 + n)"

text \<open>One byte of \<^verbatim>\<open>quote_from_bytes\<close>: itself when safe, otherwise \<^verbatim>\<open>%XX\<close> with
  upper-case digits.  Of the \<^verbatim>\<open>safe\<close> argument only the ASCII characters count.\<close>

definition quoter :: "pystr \<Rightarrow> nat \<Rightarrow> pystr" where
  "quoter safe b =
     (if always_safe b \<or> (b < 128 \<and> b \<in> set safe) then [b]
      else [37, hexdigit (b div 16), hexdigit (b mod 16)])"

definition quote_from_bytes :: "pybytes \<Rightarrow> pystr \<Rightarrow> pystr" where
  "quote_from_bytes bs safe =
     (if bs = [] then []
      else if \<forall>b \<in> set bs. always_safe b \<or> (b < 128 \<and> b \<in> set safe) then bs
      else concat (map (quoter safe) bs))"

text \<open>\<^verbatim>\<open>urllib.parse.quote(string, safe)\<close> on a \<^verbatim>\<open>str\<close>.\<close>

definition quote :: "pystr \<Rightarrow> pystr \<Rightarrow> exn + pystr" where
  "quote string safe =
     (if string = [] then Inr string
      else (case utf8_encode string of
              Inl e \<Rightarrow> Inl e
            | Inr bs \<Rightarrow> Inr (quote_from_bytes bs safe)))"

definition is_hex :: "nat \<Rightarrow> bool" where
  "is_hex c = (is_digit c \<or> (65 \<le> c \<and> c \<le> 70) \<or> (97 \<le> c \<and> c \<le> 102))"

definition hexval :: "nat \<Rightarrow> nat" where
  "hexval c = (if is_digit c then c - 48 else if c \<le> 70 then c - 55 else c - 87)"

text \<open>\<^verbatim>\<open>unquote_to_bytes\<close> on ASCII text: \<^verbatim>\<open>%\<close> and two hexadecimal digits become one
  byte, any other \<^verbatim>\<open>%\<close> stays.\<close>

fun unquote_to_bytes :: "pystr \<Rightarrow> pybytes" where
  "unquote_to_bytes (c # d # e # r) =
     (if c = 37 \<and> is_hex d \<and> is_hex e
      then (16 * hexval d + hexval e) # unquote_to_bytes r
      else c # unquote_to_bytes (d # e # r))"
| "unquote_to_bytes cs = cs"

text \<open>\<^verbatim>\<open>unquote\<close> works on the maximal runs of ASCII characters: each run is unquoted
  to bytes and decoded as UTF-8 with replacement; the characters between the runs are
  kept.  The first argument is the run read so far.\<close>

fun unquote_parts :: "pystr \<Rightarrow> pystr \<Rightarrow> pystr" where
  "unquote_parts run [] = utf8_decode (unquote_to_bytes run)"
| "unquote_parts run (c # cs) =
     (if c < 128 then unquote_parts (run @ [c]) cs
      else utf8_decode (unquote_to_bytes run) @ c # unquote_parts [] cs)"

definition unquote :: "pystr \<Rightarrow> pystr" where
  "unquote string = (if 37 \<notin> set string then string else unquote_parts [] string)"

section \<open>\<^verbatim>\<open>urllib.parse\<close>: splitting and joining\<close>

text \<open>
  \<^verbatim>\<open>urlsplit\<close>, \<^verbatim>\<open>urlparse\<close>, \<^verbatim>\<open>urlunparse\<close> and \<^verbatim>\<open>urljoin\<close> as CPython 3.12 has
  them, on \<^verbatim>\<open>str\<close> arguments.  Two checks of \<^verbatim>\<open>urlsplit\<close> need tables that are not
  reproduced here: the syntax of a bracketed IP literal and the NFKC check of a network
  location with non-ASCII characters.  They are the parameter \<open>ok\<close>: a network location
  with a bracket pair or a non-ASCII character raises \<^verbatim>\<open>ValueError\<close> when \<open>ok\<close> rejects
  it.  No other network location reaches \<open>ok\<close>.
\<close>

definition uses_relative :: "pystr list" where
  "uses_relative = map ustr ['''', ''ftp'', ''http'', ''gopher'', ''nntp'', ''imap'',
     ''wais'', ''file'', ''https'', ''shttp'', ''mms'', ''prospero'', ''rtsp'', ''rtsps'',
     ''rtspu'', ''sftp'', ''svn'', ''svn+ssh'', ''ws'', ''wss'']"

definition uses_netloc :: "pystr list" where
  "uses_netloc = map ustr ['''', ''ftp'', ''http'', ''gopher'', ''nntp'', ''telnet'',
     ''imap'', ''wais'', ''file'', ''mms'', ''https'', ''shttp'', ''snews'', ''prospero'',
     ''rtsp'', ''rtsps'', ''rtspu'', ''rsync'', ''svn'', ''svn+ssh'', ''sftp'', ''nfs'',
     ''git'', ''git+ssh'', ''ws'', ''wss'', ''itms-services'']"

definition uses_params :: "pystr list" where
  "uses_params = map ustr ['''', ''ftp'', ''hdl'', ''prospero'', ''http'', ''imap'',
     ''https'', ''shttp'', ''rtsp'', ''rtsps'', ''rtspu'', ''sip'', ''sips'', ''mms'',
     ''sftp'', ''tel'']"

definition c0_or_space :: "nat \<Rightarrow> bool" where
  "c0_or_space c = (c \<le> 32)"

text \<open>Tab, line feed and carriage return are removed from a URL wherever they stand.\<close>

definition unsafe_url_char :: "nat \<Rightarrow> bool" where
  "unsafe_url_char c = (c = 9 \<or> c = 10 \<or> c = 13)"

definition scheme_char :: "nat \<Rightarrow> bool" where
  "scheme_char c = (is_upper c \<or> is_lower c \<or> is_digit c \<or> c = 43 \<or> c = 45 \<or> c = 46)"

text \<open>The scheme: the text before the first colon, when it starts with an ASCII letter
  and holds scheme characters only; otherwise the default that was passed in.  The
  scheme is lower-cased; all its characters are ASCII.\<close>

definition split_scheme :: "pystr \<Rightarrow> pystr \<Rightarrow> pystr \<times> pystr" where
  "split_scheme scheme0 url =
     (let pre = takeWhile (\<lambda>c. c \<noteq> 58) url
      in if 58 \<in> set url \<and> pre \<noteq> [] \<and> (is_upper (hd pre) \<or> is_lower (hd pre))
            \<and> (\<forall>c \<in> set pre. scheme_char c)
         then (map lower_cp pre, drop (length pre + 1) url)
         else (scheme0, url))"

definition netloc_delim :: "nat \<Rightarrow> bool" where
  "netloc_delim c = (c = 47 \<or> c = 63 \<or> c = 35)"

record split_result =
  scheme :: pystr
  netloc :: pystr
  path :: pystr
  query :: pystr
  fragment :: pystr

definition urlsplit :: "(pystr \<Rightarrow> bool) \<Rightarrow> pystr \<Rightarrow> pystr \<Rightarrow> exn + split_result" where
  "urlsplit ok url0 scheme0 =
     (let url1 = filter (\<lambda>c. \<not> unsafe_url_char c) (dropWhile c0_or_space url0);
          scheme1 = filter (\<lambda>c. \<not> unsafe_url_char c)
                      (rev (dropWhile c0_or_space (rev (dropWhile c0_or_space scheme0))));
          (scheme2, url2) = split_scheme scheme1 url1;
          (netloc2, url3) =
            (if take 2 url2 = ustr ''//''
             then (takeWhile (\<lambda>c. \<not> netloc_delim c) (drop 2 url2),
                   dropWhile (\<lambda>c. \<not> netloc_delim c) (drop 2 url2))
             else ([], url2))
      in if (91 \<in> set netloc2) \<noteq> (93 \<in> set netloc2) then Inl ValueError
         else if (91 \<in> set netloc2 \<or> (\<exists>c \<in> set netloc2. 128 \<le> c)) \<and> \<not> ok netloc2
         then Inl ValueError
         else
           (let (url4, fragment4) =
                  (if 35 \<in> set url3
                   then (takeWhile (\<lambda>c. c \<noteq> 35) url3, tl (dropWhile (\<lambda>c. c \<noteq> 35) url3))
                   else (url3, []));
                (url5, query5) =
                  (if 63 \<in> set url4
                   then (takeWhile (\<lambda>c. c \<noteq> 63) url4, tl (dropWhile (\<lambda>c. c \<noteq> 63) url4))
                   else (url4, []))
            in Inr \<lparr>scheme = scheme2, netloc = netloc2, path = url5, query = query5,
                     fragment = fragment4\<rparr>))"

text \<open>\<^verbatim>\<open>_splitparams\<close>: the parameters are what follows the first semicolon of the last
  path segment.\<close>

definition splitparams :: "pystr \<Rightarrow> pystr \<times> pystr" where
  "splitparams url =
     (if 47 \<in> set url
      then (let seg = rev (takeWhile (\<lambda>c. c \<noteq> 47) (rev url));
                dir = take (length url - length seg) url
            in if 59 \<notin> set seg then (url, [])
               else (dir @ takeWhile (\<lambda>c. c \<noteq> 59) seg, tl (dropWhile (\<lambda>c. c \<noteq> 59) seg)))
      else (takeWhile (\<lambda>c. c \<noteq> 59) url, tl (dropWhile (\<lambda>c. c \<noteq> 59) url)))"

record parse_result = split_result +
  params :: pystr

definition urlparse :: "(pystr \<Rightarrow> bool) \<Rightarrow> pystr \<Rightarrow> pystr \<Rightarrow> exn + parse_result" where
  "urlparse ok url scheme0 =
     (case urlsplit ok url scheme0 of
        Inl e \<Rightarrow> Inl e
      | Inr r \<Rightarrow>
          (let (url1, params1) =
                 (if scheme r \<in> set uses_params \<and> 59 \<in> set (path r) then splitparams (path r)
                  else (path r, []))
           in Inr \<lparr>scheme = scheme r, netloc = netloc r, path = url1, query = query r,
                    fragment = fragment r, params = params1\<rparr>))"

definition urlunsplit :: "split_result \<Rightarrow> pystr" where
  "urlunsplit r =
     (let url1 =
            (if netloc r \<noteq> []
                \<or> (scheme r \<noteq> [] \<and> scheme r \<in> set uses_netloc \<and> take 2 (path r) \<noteq> ustr ''//'')
             then ustr ''//'' @ netloc r
                    @ (if path r \<noteq> [] \<and> take 1 (path r) \<noteq> ustr ''/''
                       then ustr ''/'' @ path r else path r)
             else path r);
          url2 = (if scheme r \<noteq> [] then scheme r @ ustr '':'' @ url1 else url1);
          url3 = (if query r \<noteq> [] then url2 @ ustr ''?'' @ query r else url2)
      in if fragment r \<noteq> [] then url3 @ ustr ''#'' @ fragment r else url3)"

definition urlunparse :: "parse_result \<Rightarrow> pystr" where
  "urlunparse r =
     urlunsplit \<lparr>scheme = scheme r, netloc = netloc r,
        path = (if params r \<noteq> [] then path r @ ustr '';'' @ params r else path r),
        query = query r, fragment = fragment r\<rparr>"

text \<open>\<^verbatim>\<open>segments[1:-1] = filter(None, segments[1:-1])\<close>: the empty segments between the
  first and the last one go.\<close>

definition filter_middle :: "pystr list \<Rightarrow> pystr list" where
  "filter_middle segs =
     (case segs of
        [] \<Rightarrow> []
      | x # xs \<Rightarrow> if xs = [] then [x]
                  else x # filter (\<lambda>p. p \<noteq> []) (butlast xs) @ [last xs])"

text \<open>The loop over the segments: \<^verbatim>\<open>..\<close> pops the last resolved segment (and is
  ignored when there is none), \<^verbatim>\<open>.\<close> is skipped, any other segment is appended.\<close>

fun resolve_segments :: "pystr list \<Rightarrow> pystr list \<Rightarrow> pystr list" where
  "resolve_segments [] resolved_path = resolved_path"
| "resolve_segments (seg # segs) resolved_path =
     (if seg = ustr ''..'' then resolve_segments segs (butlast resolved_path)
      else if seg = ustr ''.'' then resolve_segments segs resolved_path
      else resolve_segments segs (resolved_path @ [seg]))"

definition urljoin :: "(pystr \<Rightarrow> bool) \<Rightarrow> pystr \<Rightarrow> pystr \<Rightarrow> exn + pystr" where
  "urljoin ok base url =
     (if base = [] then Inr url
      else if url = [] then Inr base
      else
       (case urlparse ok base [] of
          Inl e \<Rightarrow> Inl e
        | Inr b \<Rightarrow>
           (case urlparse ok url (scheme b) of
              Inl e \<Rightarrow> Inl e
            | Inr u \<Rightarrow>
               if scheme u \<noteq> scheme b \<or> scheme u \<notin> set uses_relative then Inr url
               else if scheme u \<in> set uses_netloc \<and> netloc u \<noteq> [] then Inr (urlunparse u)
               else
                (let netloc1 = (if scheme u \<in> set uses_netloc then netloc b else netloc u)
                 in if path u = [] \<and> params u = []
                    then Inr (urlunparse (u\<lparr>netloc := netloc1, path := path b,
                           params := params b,
                           query := (if query u = [] then query b else query u)\<rparr>))
                    else
                     (let base_parts0 = str_split (path b) 47;
                          base_parts = (if last base_parts0 \<noteq> [] then butlast base_parts0
                                        else base_parts0);
                          segments = (if take 1 (path u) = ustr ''/'' then str_split (path u) 47
                                      else filter_middle (base_parts @ str_split (path u) 47));
                          resolved0 = resolve_segments segments [];
                          resolved_path =
                            (if last segments = ustr ''.'' \<or> last segments = ustr ''..''
                             then resolved0 @ [[]] else resolved0);
                          joined = join (ustr ''/'') resolved_path
                      in Inr (urlunparse (u\<lparr>netloc := netloc1,
                            path := (if joined = [] then ustr ''/'' else joined)\<rparr>)))))))"

section \<open>The relay (\<^verbatim>\<open>run.py\<close>)\<close>

subsection \<open>Requests, upstream responses, responses\<close>

text \<open>
  \<^verbatim>\<open>request.args\<close> is the list of the query parameters in the order of the query
  string; \<^verbatim>\<open>get\<close> reads the first value of a key and \<^verbatim>\<open>items()\<close> gives every key once,
  with its first value.
\<close>

type_synonym args = "(pystr \<times> pystr) list"

definition args_get :: "args \<Rightarrow> pystr \<Rightarrow> pystr option" where
  "args_get a k = map_of a k"

fun args_items :: "pystr list \<Rightarrow> args \<Rightarrow> args" where
  "args_items seen [] = []"
| "args_items seen ((k, v) # kvs) =
     (if k \<in> set seen then args_items seen kvs else (k, v) # args_items (k # seen) kvs)"

text \<open>A \<^verbatim>\<open>dict\<close> of headers keeps the order of insertion; \<^verbatim>\<open>d[k] = v\<close> replaces the
  value of a key that is there and appends a new key.\<close>

type_synonym pydict = "(pystr \<times> pystr) list"

fun setitem :: "pydict \<Rightarrow> pystr \<Rightarrow> pystr \<Rightarrow> pydict" where
  "setitem [] k v = [(k, v)]"
| "setitem ((k', v') # d) k v =
     (if k' = k then (k, v) # d else (k', v') # setitem d k v)"

text \<open>What the handlers read of a \<^verbatim>\<open>requests\<close> response: \<^verbatim>\<open>r.status_code\<close>,
  the \<^verbatim>\<open>Content-Type\<close> header, \<^verbatim>\<open>r.text\<close> (reading the body may raise) and the
  bytes that \<^verbatim>\<open>r.iter_content\<close> yields.\<close>

record upstream =
  status_code :: nat
  content_type_header :: "pystr option"
  r_text :: "exn + pystr"
  r_content :: pybytes

datatype body = Text pystr | Stream pybytes

record response =
  status :: nat
  headers :: pydict
  body :: body

text \<open>The message \<^verbatim>\<open>Missing url param 'u'\<close>; 39 is the apostrophe.\<close>

definition missing_u :: pystr where
  "missing_u = ustr ''Missing url param '' @ [39] @ ustr ''u'' @ [39]"

text \<open>A view that returns \<^verbatim>\<open>(message, code)\<close>: the headers are Flask's own.\<close>

definition plain :: "pystr \<Rightarrow> nat \<Rightarrow> response" where
  "plain msg code = \<lparr>status = code, headers = [], body = Text msg\<rparr>"

text \<open>\<^verbatim>\<open>Response(body, status=..., headers=...)\<close>.  Werkzeug copies the headers into its
  own \<^verbatim>\<open>Headers\<close> and refuses a value that holds a carriage return or a line feed
  with \<^verbatim>\<open>ValueError\<close>.\<close>

definition has_newline :: "pystr \<Rightarrow> bool" where
  "has_newline v = (10 \<in> set v \<or> 13 \<in> set v)"

definition Response :: "body \<Rightarrow> nat \<Rightarrow> pydict \<Rightarrow> exn + response" where
  "Response b st hs =
     (if list_ex (\<lambda>kv. has_newline (snd kv)) hs then Inl ValueError
      else Inr \<lparr>status = st, headers = hs, body = b\<rparr>)"

text \<open>
  One call of \<^verbatim>\<open>requests.get\<close>.  The network is a function from the calls made so far
  and the present call to a response, or to \<open>None\<close> when \<^verbatim>\<open>requests.get\<close> raises; the
  calls are logged in order.
\<close>

record fetch_call =
  fc_url :: pystr
  fc_headers :: pydict
  fc_stream :: bool
  fc_verify :: bool

type_synonym network = "fetch_call list \<Rightarrow> fetch_call \<Rightarrow> upstream option"

subsection \<open>\<^verbatim>\<open>forward_request\<close>\<close>

definition DEFAULT_HEADERS :: pydict where
  "DEFAULT_HEADERS =
     [(ustr ''User-Agent'', ustr ''Mozilla/5.0 (Windows NT 10.0; Win64; x64)''),
      (ustr ''Referer'', ustr ''https://vixsrc.to'')]"

fun header_args :: "args \<Rightarrow> pydict \<Rightarrow> pydict" where
  "header_args [] hs = hs"
| "header_args ((k, v) # kvs) hs =
     header_args kvs
       (if startswith k (ustr ''header_'')
        then setitem hs (drop (length (ustr ''header_'')) k) (unquote v)
        else hs)"

definition forward_request ::
  "network \<Rightarrow> args \<Rightarrow> pystr \<Rightarrow> pystr option \<Rightarrow> bool \<Rightarrow> bool \<Rightarrow> fetch_call list
     \<Rightarrow> upstream option \<times> fetch_call list" where
  "forward_request net a url extra_cookie stream verify log =
     (let hs1 = header_args (args_items [] a) DEFAULT_HEADERS;
          hs2 = (case extra_cookie of
                   Some c \<Rightarrow>
                     if c \<noteq> [] then setitem hs1 (ustr ''Cookie'') c
                     else (case args_get a (ustr ''cookie'') of
                             Some v \<Rightarrow> setitem hs1 (ustr ''Cookie'') (unquote v)
                           | None \<Rightarrow> hs1)
                 | None \<Rightarrow>
                     (case args_get a (ustr ''cookie'') of
                        Some v \<Rightarrow> setitem hs1 (ustr ''Cookie'') (unquote v)
                      | None \<Rightarrow> hs1));
          call = \<lparr>fc_url = url, fc_headers = hs2, fc_stream = stream, fc_verify = verify\<rparr>
      in (net log call, log @ [call]))"

subsection \<open>\<^verbatim>\<open>resolve_absolute\<close>\<close>

definition resolve_absolute :: "(pystr \<Rightarrow> bool) \<Rightarrow> pystr \<Rightarrow> pystr \<Rightarrow> exn + pystr" where
  "resolve_absolute ok uri base =
     (if startswith uri (ustr ''http://'') \<or> startswith uri (ustr ''https://'') then Inr uri
      else urljoin ok base uri)"

subsection \<open>Rewriting a manifest\<close>

text \<open>The test that sends a response to the rewriter (line 68 of \<^verbatim>\<open>proxy\<close>, line 118 of
  \<^verbatim>\<open>download\<close>); \<open>content_type\<close> is the lower-cased header.\<close>

definition is_manifest :: "(pystr \<Rightarrow> pystr) \<Rightarrow> pystr \<Rightarrow> pystr \<Rightarrow> bool" where
  "is_manifest ul target content_type =
     (endswith (lower ul target) (ustr ''.m3u8'')
      \<or> contains (ustr ''mpegurl'') content_type
      \<or> contains (ustr ''application/vnd.apple.mpegurl'') content_type)"

text \<open>The step after resolution (lines 79 and 80, again 128 and 129):
  a URL that starts with \<^verbatim>\<open>http://\<close> gets \<^verbatim>\<open>https://\<close> in its place.\<close>

definition prefer_https :: "pystr \<Rightarrow> pystr" where
  "prefer_https absu =
     (if startswith absu (ustr ''http://'')
      then ustr ''https://'' @ drop (length (ustr ''http://'')) absu
      else absu)"

text \<open>The loop over the lines (lines 73 to 82, again 123 to 131); the last argument is
  \<^verbatim>\<open>out_lines\<close>.  An exception of \<^verbatim>\<open>urljoin\<close> or of \<^verbatim>\<open>quote\<close> leaves the loop.\<close>

fun rewrite_lines :: "(pystr \<Rightarrow> bool) \<Rightarrow> pystr \<Rightarrow> pystr list \<Rightarrow> pystr list
    \<Rightarrow> exn + pystr list" where
  "rewrite_lines ok base [] out_lines = Inr out_lines"
| "rewrite_lines ok base (ln # lns) out_lines =
     (if ln = [] \<or> startswith ln (ustr ''#'') then rewrite_lines ok base lns (out_lines @ [ln])
      else
       (case resolve_absolute ok (strip ln) base of
          Inl e \<Rightarrow> Inl e
        | Inr absu \<Rightarrow>
           (case quote (prefer_https absu) [] of
              Inl e \<Rightarrow> Inl e
            | Inr q \<Rightarrow> rewrite_lines ok base lns (out_lines @ [ustr ''/proxy?u='' @ q]))))"

text \<open>The body of the \<^verbatim>\<open>try\<close> up to \<^verbatim>\<open>out\<close> (lines 70 to 83, again 120 to 132).\<close>

definition rewrite_manifest :: "(pystr \<Rightarrow> bool) \<Rightarrow> upstream \<Rightarrow> pystr \<Rightarrow> exn + pystr" where
  "rewrite_manifest ok r target =
     (case r_text r of
        Inl e \<Rightarrow> Inl e
      | Inr text \<Rightarrow>
         (let base = hd (rsplit1 target 47) @ ustr ''/''
          in case rewrite_lines ok base (splitlines text) [] of
               Inl e \<Rightarrow> Inl e
             | Inr out_lines \<Rightarrow> Inr (join [10] out_lines)))"

subsection \<open>\<^verbatim>\<open>proxy\<close>\<close>

text \<open>
  Lines 65 to 99: what \<^verbatim>\<open>proxy\<close> does once it holds the upstream response.  The result
  \<open>Inr\<close> is the response the view returns; \<open>Inl\<close> is an exception that leaves the view,
  which Flask answers with status 500.  The \<^verbatim>\<open>try\<close> of line 69 holds the call of
  \<^verbatim>\<open>Response\<close> of line 89, the call of line 99 stands outside of any \<^verbatim>\<open>try\<close>.
\<close>

definition proxy_answer ::
  "(pystr \<Rightarrow> pystr) \<Rightarrow> (pystr \<Rightarrow> bool) \<Rightarrow> pystr \<Rightarrow> upstream \<Rightarrow> exn + response" where
  "proxy_answer ul ok target r =
     (let content_type =
            lower ul (case content_type_header r of None \<Rightarrow> [] | Some c \<Rightarrow> c)
      in if is_manifest ul target content_type
         then (case rewrite_manifest ok r target of
                 Inl e \<Rightarrow> Inr (plain (ustr ''Manifest rewrite failed'') 500)
               | Inr out \<Rightarrow>
                  (case Response (Text out) 200
                          [(ustr ''Content-Type'', ustr ''application/vnd.apple.mpegurl''),
                           (ustr ''Access-Control-Allow-Origin'', ustr ''*''),
                           (ustr ''Cache-Control'', ustr ''no-cache'')] of
                     Inl e \<Rightarrow> Inr (plain (ustr ''Manifest rewrite failed'') 500)
                   | Inr resp \<Rightarrow> Inr resp))
         else
           Response (Stream (r_content r)) (status_code r)
             [(ustr ''Content-Type'',
                 (case content_type_header r of
                    None \<Rightarrow> ustr ''application/octet-stream'' | Some c \<Rightarrow> c)),
              (ustr ''Access-Control-Allow-Origin'', ustr ''*''),
              (ustr ''Cache-Control'', ustr ''no-cache'')])"

text \<open>The handler: the answer and the calls made to the network.\<close>

definition proxy ::
  "(pystr \<Rightarrow> pystr) \<Rightarrow> (pystr \<Rightarrow> bool) \<Rightarrow> network \<Rightarrow> args
     \<Rightarrow> (exn + response) \<times> fetch_call list" where
  "proxy ul ok net a =
     (case args_get a (ustr ''u'') of
        None \<Rightarrow> (Inr (plain missing_u 400), [])
      | Some u \<Rightarrow>
         if u = [] then (Inr (plain missing_u 400), [])
         else
          (let target = unquote u;
               cookie = (case args_get a (ustr ''cookie'') of
                           None \<Rightarrow> None
                         | Some c \<Rightarrow> if c = [] then None else Some (unquote c))
           in case forward_request net a target cookie True True [] of
                (Some r, log1) \<Rightarrow> (proxy_answer ul ok target r, log1)
              | (None, log1) \<Rightarrow>
                 (case forward_request net a target cookie True False log1 of
                    (Some r, log2) \<Rightarrow> (proxy_answer ul ok target r, log2)
                  | (None, log2) \<Rightarrow> (Inr (plain (ustr ''Upstream error'') 502), log2))))"

subsection \<open>\<^verbatim>\<open>download\<close>\<close>

text \<open>Line 115: the target is split at every slash, the last piece is split at every
  question mark, the first piece of that is unquoted; an empty name becomes
  \<^verbatim>\<open>download\<close>.\<close>

definition filename_of :: "pystr \<Rightarrow> pystr" where
  "filename_of target =
     (let name = unquote (hd (str_split (last (str_split target 47)) 63))
      in if name = [] then ustr ''download'' else name)"

text \<open>
  Lines 114 to 150: what \<^verbatim>\<open>download\<close> does once it holds the upstream response.  The
  file name stands between two quotation marks (34) in the \<^verbatim>\<open>Content-Disposition\<close>
  header.  As in \<^verbatim>\<open>proxy\<close>, the \<^verbatim>\<open>Response\<close> of the playlist (line 139) is built inside
  the \<^verbatim>\<open>try\<close> and the one of the binary resource (line 150) outside.
\<close>

definition download_answer ::
  "(pystr \<Rightarrow> pystr) \<Rightarrow> (pystr \<Rightarrow> bool) \<Rightarrow> pystr \<Rightarrow> upstream \<Rightarrow> exn + response" where
  "download_answer ul ok target r =
     (let content_type =
            lower ul (case content_type_header r of
                        None \<Rightarrow> ustr ''application/octet-stream''
                      | Some c \<Rightarrow> if c = [] then ustr ''application/octet-stream'' else c);
          filename = filename_of target;
          disposition = ustr ''attachment; filename='' @ [34] @ filename @ [34]
      in if is_manifest ul target content_type
         then (case rewrite_manifest ok r target of
                 Inl e \<Rightarrow> Inr (plain (ustr ''Failed to rewrite manifest'') 500)
               | Inr out \<Rightarrow>
                  (case Response (Text out) 200
                          [(ustr ''Content-Type'', ustr ''application/vnd.apple.mpegurl''),
                           (ustr ''Content-Disposition'', disposition),
                           (ustr ''Access-Control-Allow-Origin'', ustr ''*''),
                           (ustr ''Cache-Control'', ustr ''no-cache'')] of
                     Inl e \<Rightarrow> Inr (plain (ustr ''Failed to rewrite manifest'') 500)
                   | Inr resp \<Rightarrow> Inr resp))
         else
           Response (Stream (r_content r)) (status_code r)
             [(ustr ''Content-Type'', content_type),
              (ustr ''Content-Disposition'', disposition),
              (ustr ''Access-Control-Allow-Origin'', ustr ''*''),
              (ustr ''Cache-Control'', ustr ''no-cache'')])"

definition download ::
  "(pystr \<Rightarrow> pystr) \<Rightarrow> (pystr \<Rightarrow> bool) \<Rightarrow> network \<Rightarrow> args
     \<Rightarrow> (exn + response) \<times> fetch_call list" where
  "download ul ok net a =
     (case args_get a (ustr ''u'') of
        None \<Rightarrow> (Inr (plain missing_u 400), [])
      | Some u \<Rightarrow>
         if u = [] then (Inr (plain missing_u 400), [])
         else
          (let target = unquote u
           in case forward_request net a target None False True [] of
                (Some r, log1) \<Rightarrow> (download_answer ul ok target r, log1)
              | (None, log1) \<Rightarrow>
                 (case forward_request net a target None False False log1 of
                    (Some r, log2) \<Rightarrow> (download_answer ul ok target r, log2)
                  | (None, log2) \<Rightarrow> (Inr (plain (ustr ''Upstream error'') 502), log2))))"

section \<open>Notions of the specification\<close>

text \<open>A code point that has a UTF-8 encoding: below 110000 (hexadecimal) and no
  surrogate.\<close>

definition scalar_value :: "nat \<Rightarrow> bool" where
  "scalar_value c = (c < 55296 \<or> (57343 < c \<and> c < 1114112))"

text \<open>The classification in the words of the specification: a playlist when the path of
  the target URL ends in \<^verbatim>\<open>.m3u8\<close> or the content type holds \<^verbatim>\<open>mpegurl\<close>.  The
  path is the one \<^verbatim>\<open>urlsplit\<close> gives; \<open>content_type\<close> is the lower-cased header.\<close>

definition spec_is_playlist ::
  "(pystr \<Rightarrow> pystr) \<Rightarrow> (pystr \<Rightarrow> bool) \<Rightarrow> pystr \<Rightarrow> pystr \<Rightarrow> bool" where
  "spec_is_playlist ul ok target content_type =
     ((case urlsplit ok target [] of
         Inl e \<Rightarrow> False
       | Inr r \<Rightarrow> endswith (lower ul (path r)) (ustr ''.m3u8''))
      \<or> contains (ustr ''mpegurl'') content_type)"

text \<open>How a handler shows what it took the resource for: the playlist branch answers with
  a text, the rewritten playlist or the message of the failed rewrite; the binary branch
  streams the body of the upstream response, or raises when \<^verbatim>\<open>Response\<close> refuses a
  header.\<close>

definition answers_text :: "exn + response \<Rightarrow> bool" where
  "answers_text a =
     (case a of
        Inl e \<Rightarrow> False
      | Inr resp \<Rightarrow> (case body resp of Text t \<Rightarrow> True | Stream bs \<Rightarrow> False))"

text \<open>The file name in the words of the specification: the last segment of the path of
  the target URL, percent-decoded, \<^verbatim>\<open>download\<close> when it is empty.  The path is the one
  \<^verbatim>\<open>urlsplit\<close> gives, so the query string is not part of it.\<close>

definition spec_filename :: "(pystr \<Rightarrow> bool) \<Rightarrow> pystr \<Rightarrow> exn + pystr" where
  "spec_filename ok target =
     (case urlsplit ok target [] of
        Inl e \<Rightarrow> Inl e
      | Inr r \<Rightarrow>
         (let name = unquote (last (str_split (path r) 47))
          in Inr (if name = [] then ustr ''download'' else name)))"

section \<open>The scheme upgrade\<close>

text \<open>
  Claim C4.  A resolved URL that begins with \<^verbatim>\<open>http://\<close> leaves the upgrade step
  beginning with \<^verbatim>\<open>https://\<close>, and what follows the prefix is what followed it before;
  a URL that does not begin with \<^verbatim>\<open>http://\<close> leaves the step as it came.
\<close>

theorem prefer_https_upgrade:
  "(startswith u (ustr ''http://'') \<longrightarrow>
      startswith (prefer_https u) (ustr ''https://'')
      \<and> drop (length (ustr ''https://'')) (prefer_https u)
          = drop (length (ustr ''http://'')) u)
   \<and> (\<not> startswith u (ustr ''http://'') \<longrightarrow> prefer_https u = u)"
  by (simp add: prefer_https_def startswith_def)

theorem prefer_https_upgrade_witness:
  "startswith (ustr ''http://cdn.example.com/seg2.ts'') (ustr ''http://'')
   \<and> prefer_https (ustr ''http://cdn.example.com/seg2.ts'')
       = ustr ''https://cdn.example.com/seg2.ts''
   \<and> \<not> startswith (ustr ''ftp://x/y'') (ustr ''http://'')
   \<and> prefer_https (ustr ''ftp://x/y'') = ustr ''ftp://x/y''"
  using prefer_https_upgrade [of "ustr ''http://cdn.example.com/seg2.ts''"]
    prefer_https_upgrade [of "ustr ''ftp://x/y''"]
  by (simp add: startswith_def prefer_https_def)

section \<open>The round trip through the query parameter\<close>

subsection \<open>UTF-8: decoding what was encoded\<close>

lemma utf8_decode_2:
  assumes "128 \<le> c" and "c < 2048"
  shows "utf8_decode ((192 + c div 64) # (128 + c mod 64) # rest) = c # utf8_decode rest"
proof -
  define d1 where "d1 = c div 64"
  define m1 where "m1 = c mod 64"
  have e: "c = 64 * d1 + m1"
    unfolding d1_def m1_def by simp
  have r: "m1 < 64"
    by (simp add: m1_def)
  have b1: "2 \<le> d1" "d1 < 32"
    using e r assms by linarith+
  have "utf8_decode ((192 + d1) # (128 + m1) # rest) = c # utf8_decode rest"
    using b1 r e by (simp add: is_cont_def)
  then show ?thesis
    unfolding d1_def m1_def .
qed

lemma utf8_decode_3:
  assumes "2048 \<le> c" and "c < 65536" and "\<not> (55296 \<le> c \<and> c \<le> 57343)"
  shows "utf8_decode ((224 + c div 4096) # (128 + (c div 64) mod 64) # (128 + c mod 64) # rest)
     = c # utf8_decode rest"
proof -
  define d1 where "d1 = c div 4096"
  define m2 where "m2 = (c div 64) mod 64"
  define m1 where "m1 = c mod 64"
  have e: "c = 4096 * d1 + 64 * m2 + m1"
  proof -
    have "c div 4096 = c div 64 div 64"
      by (simp add: div_mult2_eq)
    then have "c div 64 = 64 * d1 + m2"
      unfolding d1_def m2_def by simp
    moreover have "c = 64 * (c div 64) + m1"
      unfolding m1_def by simp
    ultimately show ?thesis by linarith
  qed
  have r: "m2 < 64" "m1 < 64"
    by (simp_all add: m2_def m1_def)
  have b1: "d1 < 16"
    using e assms by linarith
  have c1: "m2 < 32 \<Longrightarrow> d1 \<noteq> 0"
    using e r assms by linarith
  have c2: "\<not> m2 < 32 \<Longrightarrow> d1 \<noteq> 13"
    using e r assms by linarith
  have "utf8_decode ((224 + d1) # (128 + m2) # (128 + m1) # rest) = c # utf8_decode rest"
    using b1 c1 c2 r e by (simp add: is_cont_def)
  then show ?thesis
    unfolding d1_def m2_def m1_def .
qed

lemma utf8_decode_4:
  assumes "65536 \<le> c" and "c < 1114112"
  shows "utf8_decode ((240 + c div 262144) # (128 + (c div 4096) mod 64)
           # (128 + (c div 64) mod 64) # (128 + c mod 64) # rest)
     = c # utf8_decode rest"
proof -
  define d1 where "d1 = c div 262144"
  define m3 where "m3 = (c div 4096) mod 64"
  define m2 where "m2 = (c div 64) mod 64"
  define m1 where "m1 = c mod 64"
  have e: "c = 262144 * d1 + 4096 * m3 + 64 * m2 + m1"
  proof -
    have "c div 262144 = c div 4096 div 64"
      by (simp add: div_mult2_eq)
    then have a: "c div 4096 = 64 * d1 + m3"
      unfolding d1_def m3_def by simp
    have "c div 4096 = c div 64 div 64"
      by (simp add: div_mult2_eq)
    then have b: "c div 64 = 64 * (c div 4096) + m2"
      unfolding m2_def by simp
    have "c = 64 * (c div 64) + m1"
      unfolding m1_def by simp
    with a b show ?thesis by linarith
  qed
  have r: "m3 < 64" "m2 < 64" "m1 < 64"
    by (simp_all add: m3_def m2_def m1_def)
  have b1: "d1 < 5"
    using e assms by linarith
  have c1: "m3 < 16 \<Longrightarrow> d1 \<noteq> 0"
    using e r assms by linarith
  have c2: "\<not> m3 < 16 \<Longrightarrow> d1 \<noteq> 4"
    using e r assms by linarith
  have "utf8_decode ((240 + d1) # (128 + m3) # (128 + m2) # (128 + m1) # rest)
      = c # utf8_decode rest"
    using b1 c1 c2 r e by (simp add: is_cont_def)
  then show ?thesis
    unfolding d1_def m3_def m2_def m1_def .
qed

lemma utf8_decode_encode_cp:
  assumes "scalar_value c"
  shows "\<exists>e. utf8_encode_cp c = Inr e \<and> (\<forall>b \<in> set e. b < 256)
           \<and> (\<forall>rest. utf8_decode (e @ rest) = c # utf8_decode rest)"
proof -
  consider "c < 128" | "128 \<le> c \<and> c < 2048" | "2048 \<le> c \<and> c < 65536"
    | "65536 \<le> c \<and> c < 1114112"
    using assms unfolding scalar_value_def by linarith
  then show ?thesis
  proof cases
    case 1
    then show ?thesis
      by (simp add: utf8_encode_cp_def)
  next
    case 2
    then have "utf8_encode_cp c = Inr [192 + c div 64, 128 + c mod 64]"
      by (simp add: utf8_encode_cp_def)
    moreover have "192 + c div 64 < 256"
      using 2 by arith
    moreover have "128 + c mod 64 < 256"
      by simp
    moreover have "\<forall>rest. utf8_decode ([192 + c div 64, 128 + c mod 64] @ rest)
        = c # utf8_decode rest"
      using utf8_decode_2 2 by (simp del: utf8_decode.simps)
    ultimately show ?thesis
      by (simp del: utf8_decode.simps)
  next
    case 3
    then have ns: "\<not> (55296 \<le> c \<and> c \<le> 57343)"
      using assms unfolding scalar_value_def by linarith
    then have "utf8_encode_cp c
        = Inr [224 + c div 4096, 128 + (c div 64) mod 64, 128 + c mod 64]"
      using 3 by (simp add: utf8_encode_cp_def)
    moreover have "224 + c div 4096 < 256"
      using 3 by arith
    moreover have "128 + (c div 64) mod 64 < 256" "128 + c mod 64 < 256"
      by simp_all
    moreover have "\<forall>rest. utf8_decode
          ([224 + c div 4096, 128 + (c div 64) mod 64, 128 + c mod 64] @ rest)
        = c # utf8_decode rest"
      using utf8_decode_3 3 ns by (simp del: utf8_decode.simps)
    ultimately show ?thesis
      by (simp del: utf8_decode.simps)
  next
    case 4
    then have "utf8_encode_cp c
        = Inr [240 + c div 262144, 128 + (c div 4096) mod 64, 128 + (c div 64) mod 64,
               128 + c mod 64]"
      by (simp add: utf8_encode_cp_def)
    moreover have "240 + c div 262144 < 256"
      using 4 by arith
    moreover have "128 + (c div 4096) mod 64 < 256" "128 + (c div 64) mod 64 < 256"
        "128 + c mod 64 < 256"
      by simp_all
    moreover have "\<forall>rest. utf8_decode
          ([240 + c div 262144, 128 + (c div 4096) mod 64, 128 + (c div 64) mod 64,
            128 + c mod 64] @ rest)
        = c # utf8_decode rest"
      using utf8_decode_4 4 by (simp del: utf8_decode.simps)
    ultimately show ?thesis
      by (simp del: utf8_decode.simps)
  qed
qed

lemma utf8_roundtrip:
  assumes "list_all scalar_value s"
  shows "\<exists>bs. utf8_encode s = Inr bs \<and> (\<forall>b \<in> set bs. b < 256) \<and> utf8_decode bs = s"
  using assms
proof (induction s)
  case Nil
  show ?case by simp
next
  case (Cons c cs)
  then have "scalar_value c" and "list_all scalar_value cs"
    by simp_all
  from utf8_decode_encode_cp [OF \<open>scalar_value c\<close>] obtain e where
    e: "utf8_encode_cp c = Inr e" "\<forall>b \<in> set e. b < 256"
       "\<forall>rest. utf8_decode (e @ rest) = c # utf8_decode rest"
    by blast
  from Cons.IH [OF \<open>list_all scalar_value cs\<close>] obtain bs where
    bs: "utf8_encode cs = Inr bs" "\<forall>b \<in> set bs. b < 256" "utf8_decode bs = cs"
    by blast
  have "utf8_encode (c # cs) = Inr (e @ bs)"
    using e(1) bs(1) by simp
  moreover have "\<forall>b \<in> set (e @ bs). b < 256"
    using e(2) bs(2) by auto
  moreover have "utf8_decode (e @ bs) = c # cs"
    using e(3) bs(3) by (simp del: utf8_decode.simps)
  ultimately show ?case by blast
qed

subsection \<open>Unquoting what was quoted\<close>

lemma utf8_decode_ascii: "\<forall>b \<in> set bs. b < 128 \<Longrightarrow> utf8_decode bs = bs"
  by (induction bs) simp_all

lemma quoter_safe: "\<forall>b \<in> set bs. always_safe b \<Longrightarrow> concat (map (quoter []) bs) = bs"
  by (induction bs) (simp_all add: quoter_def)

lemma quote_from_bytes_concat: "quote_from_bytes bs [] = concat (map (quoter []) bs)"
proof (cases "\<forall>b \<in> set bs. always_safe b")
  case True
  then show ?thesis
    using quoter_safe [OF True] by (simp add: quote_from_bytes_def)
next
  case False
  then show ?thesis
    by (auto simp: quote_from_bytes_def)
qed

lemma unquote_to_bytes_plain:
  assumes "c \<noteq> 37"
  shows "unquote_to_bytes (c # r) = c # unquote_to_bytes r"
proof (cases r)
  case Nil
  then show ?thesis by simp
next
  case (Cons d r1)
  then show ?thesis using assms by (cases r1) simp_all
qed

lemma hexdigit_facts:
  assumes "n < 16"
  shows "is_hex (hexdigit n)" and "hexval (hexdigit n) = n" and "hexdigit n < 128"
  using assms by (auto simp: hexdigit_def is_hex_def is_digit_def hexval_def)

lemma always_safe_facts:
  assumes "always_safe b"
  shows "b \<noteq> 37" and "b < 128"
  using assms by (auto simp: always_safe_def is_upper_def is_lower_def is_digit_def)

lemma unquote_to_bytes_quoter:
  assumes "b < 256"
  shows "unquote_to_bytes (quoter [] b @ r) = b # unquote_to_bytes r"
proof (cases "always_safe b")
  case True
  then show ?thesis
    using unquote_to_bytes_plain [of b r] always_safe_facts(1) [OF True]
    by (simp add: quoter_def)
next
  case False
  have d: "b div 16 < 16" "b mod 16 < 16"
    using assms by simp_all
  have "16 * (b div 16) + b mod 16 = b"
    by simp
  then show ?thesis
    using False hexdigit_facts(1,2) [OF d(1)] hexdigit_facts(1,2) [OF d(2)]
    by (simp add: quoter_def)
qed

lemma unquote_to_bytes_quoted:
  "\<forall>b \<in> set bs. b < 256 \<Longrightarrow> unquote_to_bytes (concat (map (quoter []) bs)) = bs"
proof (induction bs)
  case Nil
  show ?case by simp
next
  case (Cons b bs)
  then show ?case
    by (simp add: unquote_to_bytes_quoter del: unquote_to_bytes.simps)
qed

lemma quoter_ascii:
  assumes "b < 256"
  shows "\<forall>c \<in> set (quoter [] b). c < 128"
proof -
  have d: "b div 16 < 16" "b mod 16 < 16"
    using assms by simp_all
  show ?thesis
    using always_safe_facts(2) [of b] hexdigit_facts(3) [OF d(1)] hexdigit_facts(3) [OF d(2)]
    by (auto simp: quoter_def)
qed

lemma quoted_ascii:
  "\<forall>b \<in> set bs. b < 256 \<Longrightarrow> \<forall>c \<in> set (concat (map (quoter []) bs)). c < 128"
  using quoter_ascii by auto

lemma quoted_no_percent:
  assumes "37 \<notin> set (concat (map (quoter []) bs))"
  shows "\<forall>b \<in> set bs. always_safe b"
proof
  fix b assume "b \<in> set bs"
  then have "37 \<notin> set (quoter [] b)"
    using assms by auto
  then show "always_safe b"
    by (auto simp: quoter_def split: if_splits)
qed

lemma unquote_parts_ascii:
  "\<forall>c \<in> set q. c < 128 \<Longrightarrow> unquote_parts run q = utf8_decode (unquote_to_bytes (run @ q))"
  by (induction q arbitrary: run) simp_all

text \<open>
  Claim C3.  Take a URL \<open>s\<close> whose code points all have a UTF-8 encoding (no surrogate).
  Line 81 quotes it with an empty safe set, \<^verbatim>\<open>quote(s, safe='')\<close>; this raises nothing,
  and \<^verbatim>\<open>unquote\<close> (line 54) of the quoted text is \<open>s\<close> again.
\<close>

theorem quote_unquote_roundtrip:
  assumes "list_all scalar_value s"
  shows "\<exists>q. quote s [] = Inr q \<and> unquote q = s"
proof -
  from utf8_roundtrip [OF assms] obtain bs where
    bs: "utf8_encode s = Inr bs" "\<forall>b \<in> set bs. b < 256" "utf8_decode bs = s"
    by blast
  define q where "q = concat (map (quoter []) bs)"
  have qu: "quote s [] = Inr q"
  proof (cases "s = []")
    case True
    then have "bs = []" using bs(1) by simp
    then show ?thesis using True by (simp add: quote_def q_def)
  next
    case False
    then show ?thesis
      using bs(1) by (simp add: quote_def quote_from_bytes_concat q_def)
  qed
  have asc: "\<forall>c \<in> set q. c < 128"
    unfolding q_def using quoted_ascii [OF bs(2)] .
  have ub: "unquote_to_bytes q = bs"
    unfolding q_def using unquote_to_bytes_quoted [OF bs(2)] .
  have "unquote q = s"
  proof (cases "37 \<in> set q")
    case True
    then have "unquote q = unquote_parts [] q"
      by (simp add: unquote_def)
    also have "\<dots> = utf8_decode (unquote_to_bytes q)"
      using unquote_parts_ascii [OF asc, of "[]"] by simp
    finally show ?thesis
      using ub bs(3) by simp
  next
    case False
    then have safe: "\<forall>b \<in> set bs. always_safe b"
      unfolding q_def by (rule quoted_no_percent)
    then have "q = bs"
      unfolding q_def by (rule quoter_safe)
    moreover have "\<forall>b \<in> set bs. b < 128"
      using safe always_safe_facts(2) by blast
    then have "utf8_decode bs = bs"
      by (rule utf8_decode_ascii)
    ultimately show ?thesis
      using False bs(3) by (simp add: unquote_def)
  qed
  with qu show ?thesis by blast
qed

theorem quote_unquote_roundtrip_witness:
  "list_all scalar_value (ustr ''https://h/a b?x=%41'' @ [233, 8364, 128512])
   \<and> quote (ustr ''https://h/a b?x=%41'' @ [233, 8364, 128512]) []
       = Inr (ustr ''https%3A%2F%2Fh%2Fa%20b%3Fx%3D%2541%C3%A9%E2%82%AC%F0%9F%98%80'')
   \<and> unquote (ustr ''https%3A%2F%2Fh%2Fa%20b%3Fx%3D%2541%C3%A9%E2%82%AC%F0%9F%98%80'')
       = ustr ''https://h/a b?x=%41'' @ [233, 8364, 128512]"
  using quote_unquote_roundtrip [of "ustr ''https://h/a b?x=%41'' @ [233, 8364, 128512]"]
  by (simp add: scalar_value_def quote_def quote_from_bytes_def quoter_def
        utf8_encode_cp_def always_safe_def is_upper_def is_lower_def is_digit_def
        hexdigit_def)

section \<open>Playlist or binary\<close>

subsection \<open>The substring test\<close>

lemma startswith_iff: "startswith s p \<longleftrightarrow> (\<exists>q. s = p @ q)"
  unfolding startswith_def
  by (metis append_eq_conv_conj append_take_drop_id)

lemma contains_iff: "contains sub s \<longleftrightarrow> (\<exists>p q. s = p @ sub @ q)"
proof (induction s)
  case Nil
  show ?case by auto
next
  case (Cons c cs)
  show ?case
  proof
    assume "contains sub (c # cs)"
    then consider "startswith (c # cs) sub" | "contains sub cs" by auto
    then show "\<exists>p q. c # cs = p @ sub @ q"
    proof cases
      case 1
      then obtain q where "c # cs = sub @ q" using startswith_iff by blast
      then have "c # cs = [] @ sub @ q" by simp
      then show ?thesis by blast
    next
      case 2
      then obtain p q where "cs = p @ sub @ q" using Cons.IH by blast
      then have "c # cs = (c # p) @ sub @ q" by simp
      then show ?thesis by blast
    qed
  next
    assume "\<exists>p q. c # cs = p @ sub @ q"
    then obtain p q where pq: "c # cs = p @ sub @ q" by blast
    show "contains sub (c # cs)"
    proof (cases p)
      case Nil
      then have "startswith (c # cs) sub" using pq startswith_iff by auto
      then show ?thesis by simp
    next
      case (Cons a p')
      then have "cs = p' @ sub @ q" using pq by simp
      then have "contains sub cs" using Cons.IH by blast
      then show ?thesis by simp
    qed
  qed
qed

lemma contains_suffix: "contains (a @ b) s \<Longrightarrow> contains b s"
  unfolding contains_iff by (metis append.assoc)

subsection \<open>The classification of the two handlers\<close>

lemma is_manifest_iff:
  "is_manifest ul target ct \<longleftrightarrow>
     endswith (lower ul target) (ustr ''.m3u8'') \<or> contains (ustr ''mpegurl'') ct"
proof -
  have "ustr ''application/vnd.apple.mpegurl'' = ustr ''application/vnd.apple.'' @ ustr ''mpegurl''"
    by simp
  then have "contains (ustr ''application/vnd.apple.mpegurl'') ct \<Longrightarrow> contains (ustr ''mpegurl'') ct"
    using contains_suffix by metis
  then show ?thesis unfolding is_manifest_def by blast
qed

lemma octet_stream_no_mpegurl:
  "\<not> contains (ustr ''mpegurl'') (lower ul (ustr ''application/octet-stream''))"
  by (simp add: lower_def lower_cp_def startswith_def)

lemma lower_Nil: "lower ul [] = []"
  by (simp add: lower_def)

lemma download_manifest_eq:
  "is_manifest ul target
     (lower ul (case content_type_header r of
               None \<Rightarrow> ustr ''application/octet-stream''
             | Some c \<Rightarrow> if c = [] then ustr ''application/octet-stream'' else c))
   = is_manifest ul target (lower ul (case content_type_header r of None \<Rightarrow> [] | Some c \<Rightarrow> c))"
  unfolding is_manifest_iff using octet_stream_no_mpegurl [of ul]
  by (auto simp: lower_Nil split: option.splits)

lemma Response_body:
  "Response b st hs = Inr resp \<Longrightarrow> body resp = b \<and> status resp = st \<and> headers resp = hs"
  by (auto simp: Response_def split: if_splits)

lemma Response_text: "answers_text (Response (Text t) st hs) \<longleftrightarrow> \<not> list_ex (\<lambda>kv. has_newline (snd kv)) hs"
  by (simp add: Response_def answers_text_def)

lemma Response_stream: "\<not> answers_text (Response (Stream bs) st hs)"
  by (simp add: Response_def answers_text_def)

lemma answers_text_plain: "answers_text (Inr (plain m c))"
  by (simp add: answers_text_def plain_def)

lemma caught_text:
  "answers_text (case Response (Text out) 200 hs of
                   Inl e \<Rightarrow> Inr (plain m 500) | Inr resp \<Rightarrow> Inr resp)"
  by (simp add: Response_def answers_text_def plain_def)

lemma manifest_branch_text:
  "answers_text
     (case rw of
        Inl e \<Rightarrow> Inr (plain m 500)
      | Inr out \<Rightarrow>
          (case Response (Text out) 200 hs of
             Inl e \<Rightarrow> Inr (plain m 500) | Inr resp \<Rightarrow> Inr resp))"
  by (cases rw) (simp_all add: caught_text answers_text_plain)

lemma proxy_text_iff:
  "answers_text (proxy_answer ul ok target r) \<longleftrightarrow>
     is_manifest ul target (lower ul (case content_type_header r of None \<Rightarrow> [] | Some c \<Rightarrow> c))"
proof (cases "is_manifest ul target
    (lower ul (case content_type_header r of None \<Rightarrow> [] | Some c \<Rightarrow> c))")
  case True
  then show ?thesis
    unfolding proxy_answer_def Let_def
    using manifest_branch_text [where rw = "rewrite_manifest ok r target"] by simp
next
  case False
  then show ?thesis
    unfolding proxy_answer_def Let_def by (simp add: Response_stream)
qed

lemma download_text_iff:
  "answers_text (download_answer ul ok target r) \<longleftrightarrow>
     is_manifest ul target (lower ul (case content_type_header r of None \<Rightarrow> [] | Some c \<Rightarrow> c))"
proof (cases "is_manifest ul target
    (lower ul (case content_type_header r of None \<Rightarrow> [] | Some c \<Rightarrow> c))")
  case True
  then show ?thesis
    unfolding download_answer_def Let_def download_manifest_eq
    using manifest_branch_text [where rw = "rewrite_manifest ok r target"] by simp
next
  case False
  then show ?thesis
    unfolding download_answer_def Let_def download_manifest_eq
    by (simp add: Response_stream)
qed

lemma query_string_path:
  "urlsplit ok (ustr ''https://h/index.m3u8?token=abc'') []
   = Inr \<lparr>scheme = ustr ''https'', netloc = ustr ''h'', path = ustr ''/index.m3u8'',
           query = ustr ''token=abc'', fragment = []\<rparr>"
  by (simp add: urlsplit_def split_scheme_def c0_or_space_def unsafe_url_char_def
        scheme_char_def netloc_delim_def is_upper_def is_lower_def is_digit_def
        lower_cp_def Let_def)

lemma token_not_suffix:
  "\<not> endswith (lower ul (ustr ''https://h/index.m3u8?token=abc'')) (ustr ''.m3u8'')"
  by (simp add: endswith_def lower_def lower_cp_def)

lemma next_suffix:
  "endswith (lower ul (ustr ''https://h/index.m3u8?next=b.m3u8'')) (ustr ''.m3u8'')"
  by (simp add: endswith_def lower_def lower_cp_def)

text \<open>
  Claim C2 classifies by the path of the target URL.  The code tests the whole target
  string, query string included: \<^verbatim>\<open>https://h/index.m3u8?token=abc\<close> has the path
  \<^verbatim>\<open>/index.m3u8\<close>, and with the content type \<^verbatim>\<open>video/mp2t\<close> the code takes it for
  binary.  So the classification of the code is not the one of the claim, whatever
  \<^verbatim>\<open>str.lower\<close> does to non-ASCII text and whatever \<^verbatim>\<open>urlsplit\<close> checks on the
  network location.
\<close>

theorem path_classification_counterexample:
  "\<not> (\<exists>ul ok. \<forall>target content_type.
          is_manifest ul target content_type = spec_is_playlist ul ok target content_type)"
proof
  assume "\<exists>ul ok. \<forall>target content_type.
          is_manifest ul target content_type = spec_is_playlist ul ok target content_type"
  then obtain ul ok where
    "is_manifest ul (ustr ''https://h/index.m3u8?token=abc'') (ustr ''video/mp2t'')
     = spec_is_playlist ul ok (ustr ''https://h/index.m3u8?token=abc'') (ustr ''video/mp2t'')"
    by blast
  moreover have "spec_is_playlist ul ok (ustr ''https://h/index.m3u8?token=abc'') (ustr ''video/mp2t'')"
    unfolding spec_is_playlist_def query_string_path
    by (simp add: endswith_def lower_def lower_cp_def)
  moreover have "\<not> is_manifest ul (ustr ''https://h/index.m3u8?token=abc'') (ustr ''video/mp2t'')"
    unfolding is_manifest_iff using token_not_suffix [of ul]
    by (simp add: startswith_def)
  ultimately show False by simp
qed

text \<open>
  Claim C2, as the code has it.  Each handler takes the playlist branch, and answers with
  a text, exactly when the target string as a whole, lower-cased, ends in \<^verbatim>\<open>.m3u8\<close>,
  or the lower-cased \<^verbatim>\<open>Content-Type\<close> header holds \<^verbatim>\<open>mpegurl\<close>; in any other case it
  takes the binary branch.  The third test of the source, for
  \<^verbatim>\<open>application/vnd.apple.mpegurl\<close>, adds nothing to the second, and the default content
  type of \<^verbatim>\<open>download\<close> does not hold \<^verbatim>\<open>mpegurl\<close>.  Two targets whose path ends in
  \<^verbatim>\<open>.m3u8\<close> and that carry a query string: \<^verbatim>\<open>https://h/index.m3u8?token=abc\<close> is a
  playlist exactly when the content type holds \<^verbatim>\<open>mpegurl\<close>, and
  \<^verbatim>\<open>https://h/index.m3u8?next=b.m3u8\<close> is a playlist with any content type.
\<close>

theorem playlist_classification:
  "(answers_text (proxy_answer ul ok target r) \<longleftrightarrow>
      endswith (lower ul target) (ustr ''.m3u8'')
      \<or> contains (ustr ''mpegurl'')
           (lower ul (case content_type_header r of None \<Rightarrow> [] | Some c \<Rightarrow> c)))
   \<and> (answers_text (download_answer ul ok target r) \<longleftrightarrow>
      endswith (lower ul target) (ustr ''.m3u8'')
      \<or> contains (ustr ''mpegurl'')
           (lower ul (case content_type_header r of None \<Rightarrow> [] | Some c \<Rightarrow> c)))
   \<and> (answers_text (proxy_answer ul ok (ustr ''https://h/index.m3u8?token=abc'') r) \<longleftrightarrow>
      contains (ustr ''mpegurl'')
        (lower ul (case content_type_header r of None \<Rightarrow> [] | Some c \<Rightarrow> c)))
   \<and> (answers_text (download_answer ul ok (ustr ''https://h/index.m3u8?token=abc'') r) \<longleftrightarrow>
      contains (ustr ''mpegurl'')
        (lower ul (case content_type_header r of None \<Rightarrow> [] | Some c \<Rightarrow> c)))
   \<and> answers_text (proxy_answer ul ok (ustr ''https://h/index.m3u8?next=b.m3u8'') r)
   \<and> answers_text (download_answer ul ok (ustr ''https://h/index.m3u8?next=b.m3u8'') r)"
  unfolding proxy_text_iff download_text_iff is_manifest_iff
  using token_not_suffix [of ul] next_suffix [of ul] by blast

section \<open>The status of the answer\<close>

subsection \<open>What \<^verbatim>\<open>Response\<close> accepts\<close>

lemma Response_clean:
  "\<not> list_ex (\<lambda>kv. has_newline (snd kv)) hs \<Longrightarrow>
     Response b st hs = Inr \<lparr>status = st, headers = hs, body = b\<rparr>"
  by (simp add: Response_def)

lemma Response_refused:
  "list_ex (\<lambda>kv. has_newline (snd kv)) hs \<Longrightarrow> Response b st hs = Inl ValueError"
  by (simp add: Response_def)

lemma disposition_newline:
  "has_newline (ustr ''attachment; filename='' @ [34] @ f @ [34]) = has_newline f"
  by (auto simp: has_newline_def)

lemma proxy_playlist_headers:
  "\<not> list_ex (\<lambda>kv. has_newline (snd kv))
       [(ustr ''Content-Type'', ustr ''application/vnd.apple.mpegurl''),
        (ustr ''Access-Control-Allow-Origin'', ustr ''*''),
        (ustr ''Cache-Control'', ustr ''no-cache'')]"
  by (simp add: has_newline_def)


lemma download_playlist_headers:
  "list_ex (\<lambda>kv. has_newline (snd kv))
       [(ustr ''Content-Type'', ustr ''application/vnd.apple.mpegurl''),
        (ustr ''Content-Disposition'', ustr ''attachment; filename='' @ [34] @ f @ [34]),
        (ustr ''Access-Control-Allow-Origin'', ustr ''*''),
        (ustr ''Cache-Control'', ustr ''no-cache'')] = has_newline f"
  using disposition_newline [of f] by (simp add: has_newline_def)

lemma download_binary_headers:
  "list_ex (\<lambda>kv. has_newline (snd kv))
       [(ustr ''Content-Type'', ct),
        (ustr ''Content-Disposition'', ustr ''attachment; filename='' @ [34] @ f @ [34]),
        (ustr ''Access-Control-Allow-Origin'', ustr ''*''),
        (ustr ''Cache-Control'', ustr ''no-cache'')] = (has_newline ct \<or> has_newline f)"
  using disposition_newline [of f] by (simp add: has_newline_def)

subsection \<open>The two branches of each handler\<close>

lemma proxy_answer_playlist:
  assumes "is_manifest ul target
      (lower ul (case content_type_header r of None \<Rightarrow> [] | Some c \<Rightarrow> c))"
  shows "proxy_answer ul ok target r =
     (case rewrite_manifest ok r target of
        Inl e \<Rightarrow> Inr (plain (ustr ''Manifest rewrite failed'') 500)
      | Inr out \<Rightarrow>
          Inr \<lparr>status = 200,
               headers = [(ustr ''Content-Type'', ustr ''application/vnd.apple.mpegurl''),
                          (ustr ''Access-Control-Allow-Origin'', ustr ''*''),
                          (ustr ''Cache-Control'', ustr ''no-cache'')],
               body = Text out\<rparr>)"
  unfolding proxy_answer_def Let_def Response_clean [OF proxy_playlist_headers]
  using assms by (simp split: sum.splits)


lemma download_answer_playlist:
  assumes "is_manifest ul target
      (lower ul (case content_type_header r of None \<Rightarrow> [] | Some c \<Rightarrow> c))"
  shows "download_answer ul ok target r =
     (case rewrite_manifest ok r target of
        Inl e \<Rightarrow> Inr (plain (ustr ''Failed to rewrite manifest'') 500)
      | Inr out \<Rightarrow>
          if has_newline (filename_of target)
          then Inr (plain (ustr ''Failed to rewrite manifest'') 500)
          else Inr \<lparr>status = 200,
               headers = [(ustr ''Content-Type'', ustr ''application/vnd.apple.mpegurl''),
                          (ustr ''Content-Disposition'',
                             ustr ''attachment; filename='' @ [34] @ filename_of target @ [34]),
                          (ustr ''Access-Control-Allow-Origin'', ustr ''*''),
                          (ustr ''Cache-Control'', ustr ''no-cache'')],
               body = Text out\<rparr>)"
  unfolding download_answer_def Let_def download_manifest_eq Response_def
    download_playlist_headers
  using assms by (simp split: sum.splits)

lemma download_answer_binary:
  assumes "\<not> is_manifest ul target
      (lower ul (case content_type_header r of None \<Rightarrow> [] | Some c \<Rightarrow> c))"
  shows "download_answer ul ok target r =
     (if has_newline
           (lower ul (case content_type_header r of
                        None \<Rightarrow> ustr ''application/octet-stream''
                      | Some c \<Rightarrow> if c = [] then ustr ''application/octet-stream'' else c))
         \<or> has_newline (filename_of target)
      then Inl ValueError
      else Inr \<lparr>status = status_code r,
                headers = [(ustr ''Content-Type'',
                             lower ul (case content_type_header r of
                                None \<Rightarrow> ustr ''application/octet-stream''
                              | Some c \<Rightarrow> if c = [] then ustr ''application/octet-stream'' else c)),
                           (ustr ''Content-Disposition'',
                             ustr ''attachment; filename='' @ [34] @ filename_of target @ [34]),
                           (ustr ''Access-Control-Allow-Origin'', ustr ''*''),
                           (ustr ''Cache-Control'', ustr ''no-cache'')],
                body = Stream (r_content r)\<rparr>)"
  unfolding download_answer_def Let_def download_manifest_eq Response_def
    download_binary_headers
  using assms by simp



section \<open>The fetch and its one retry\<close>

text \<open>What the handlers do once \<^verbatim>\<open>u\<close> is there: \<open>c1\<close> is the first call of
  \<^verbatim>\<open>requests.get\<close>, with verification; the second call differs from it in
  \<^verbatim>\<open>verify\<close> only.\<close>

lemma proxy_unfold:
  assumes "args_get a (ustr ''u'') = Some u" and "u \<noteq> []"
  shows "\<exists>c1. fc_verify c1 \<and> fc_url c1 = unquote u \<and>
     proxy ul ok net a =
       (case net [] c1 of
          Some r \<Rightarrow> (proxy_answer ul ok (unquote u) r, [c1])
        | None \<Rightarrow>
           (case net [c1] (c1\<lparr>fc_verify := False\<rparr>) of
              Some r \<Rightarrow> (proxy_answer ul ok (unquote u) r, [c1, c1\<lparr>fc_verify := False\<rparr>])
            | None \<Rightarrow> (Inr (plain (ustr ''Upstream error'') 502), [c1, c1\<lparr>fc_verify := False\<rparr>])))"
proof -
  define cookie where "cookie = (case args_get a (ustr ''cookie'') of
      None \<Rightarrow> None | Some c \<Rightarrow> if c = [] then None else Some (unquote c))"
  define c1 where "c1 = hd (snd (forward_request net a (unquote u) cookie True True []))"
  have f1: "forward_request net a (unquote u) cookie True True [] = (net [] c1, [c1])"
    by (simp add: c1_def forward_request_def Let_def)
  have f2: "forward_request net a (unquote u) cookie True False [c1]
      = (net [c1] (c1\<lparr>fc_verify := False\<rparr>), [c1, c1\<lparr>fc_verify := False\<rparr>])"
    by (simp add: c1_def forward_request_def Let_def)
  have v: "fc_verify c1 \<and> fc_url c1 = unquote u"
    by (simp add: c1_def forward_request_def Let_def)
  have "proxy ul ok net a =
       (case net [] c1 of
          Some r \<Rightarrow> (proxy_answer ul ok (unquote u) r, [c1])
        | None \<Rightarrow>
           (case net [c1] (c1\<lparr>fc_verify := False\<rparr>) of
              Some r \<Rightarrow> (proxy_answer ul ok (unquote u) r, [c1, c1\<lparr>fc_verify := False\<rparr>])
            | None \<Rightarrow> (Inr (plain (ustr ''Upstream error'') 502), [c1, c1\<lparr>fc_verify := False\<rparr>])))"
    unfolding proxy_def Let_def cookie_def [symmetric] using assms f1 f2
    by (simp split: option.splits)
  with v show ?thesis by blast
qed

lemma download_unfold:
  assumes "args_get a (ustr ''u'') = Some u" and "u \<noteq> []"
  shows "\<exists>c1. fc_verify c1 \<and> fc_url c1 = unquote u \<and>
     download ul ok net a =
       (case net [] c1 of
          Some r \<Rightarrow> (download_answer ul ok (unquote u) r, [c1])
        | None \<Rightarrow>
           (case net [c1] (c1\<lparr>fc_verify := False\<rparr>) of
              Some r \<Rightarrow> (download_answer ul ok (unquote u) r, [c1, c1\<lparr>fc_verify := False\<rparr>])
            | None \<Rightarrow> (Inr (plain (ustr ''Upstream error'') 502), [c1, c1\<lparr>fc_verify := False\<rparr>])))"
proof -
  define c1 where "c1 = hd (snd (forward_request net a (unquote u) None False True []))"
  have f1: "forward_request net a (unquote u) None False True [] = (net [] c1, [c1])"
    by (simp add: c1_def forward_request_def Let_def)
  have f2: "forward_request net a (unquote u) None False False [c1]
      = (net [c1] (c1\<lparr>fc_verify := False\<rparr>), [c1, c1\<lparr>fc_verify := False\<rparr>])"
    by (simp add: c1_def forward_request_def Let_def)
  have v: "fc_verify c1 \<and> fc_url c1 = unquote u"
    by (simp add: c1_def forward_request_def Let_def)
  have "download ul ok net a =
       (case net [] c1 of
          Some r \<Rightarrow> (download_answer ul ok (unquote u) r, [c1])
        | None \<Rightarrow>
           (case net [c1] (c1\<lparr>fc_verify := False\<rparr>) of
              Some r \<Rightarrow> (download_answer ul ok (unquote u) r, [c1, c1\<lparr>fc_verify := False\<rparr>])
            | None \<Rightarrow> (Inr (plain (ustr ''Upstream error'') 502), [c1, c1\<lparr>fc_verify := False\<rparr>])))"
    unfolding download_def Let_def using assms f1 f2
    by (simp split: option.splits)
  with v show ?thesis by blast
qed

text \<open>
  Claim C6.  For a request that names a target, \<^verbatim>\<open>proxy\<close> and \<^verbatim>\<open>download\<close> first put
  to the network a call \<open>c1\<close> with TLS verification.  When the network answers it, this
  is the only call and the handler works on that answer.  When it fails, the handler puts
  exactly one more call to the network, \<open>c1\<close> with \<^verbatim>\<open>verify=False\<close>, after \<open>c1\<close>;
  when the network answers the retry, the handler works on that answer, and when the retry
  fails too, the handler answers \<^verbatim>\<open>Upstream error\<close> with status 502.  In every case
  the log holds the calls named here and no other.
\<close>

theorem retry_once_then_502:
  assumes "args_get a (ustr ''u'') = Some u" and "u \<noteq> []"
  shows "(\<exists>c1. fc_verify c1 \<and> fc_url c1 = unquote u \<and>
      proxy ul ok net a =
       (case net [] c1 of
          Some r \<Rightarrow> (proxy_answer ul ok (unquote u) r, [c1])
        | None \<Rightarrow>
           (case net [c1] (c1\<lparr>fc_verify := False\<rparr>) of
              Some r \<Rightarrow> (proxy_answer ul ok (unquote u) r, [c1, c1\<lparr>fc_verify := False\<rparr>])
            | None \<Rightarrow> (Inr (plain (ustr ''Upstream error'') 502),
                        [c1, c1\<lparr>fc_verify := False\<rparr>]))))
   \<and> (\<exists>c1. fc_verify c1 \<and> fc_url c1 = unquote u \<and>
      download ul ok net a =
       (case net [] c1 of
          Some r \<Rightarrow> (download_answer ul ok (unquote u) r, [c1])
        | None \<Rightarrow>
           (case net [c1] (c1\<lparr>fc_verify := False\<rparr>) of
              Some r \<Rightarrow> (download_answer ul ok (unquote u) r, [c1, c1\<lparr>fc_verify := False\<rparr>])
            | None \<Rightarrow> (Inr (plain (ustr ''Upstream error'') 502),
                        [c1, c1\<lparr>fc_verify := False\<rparr>]))))"
  using proxy_unfold [OF assms, of ul ok net] download_unfold [OF assms, of ul ok net]
  by blast

theorem retry_once_then_502_witness:
  "args_get [(ustr ''u'', ustr ''https%3A%2F%2Fh%2Fx'')] (ustr ''u'')
     = Some (ustr ''https%3A%2F%2Fh%2Fx'')
   \<and> proxy (\<lambda>s. s) (\<lambda>_. True) (\<lambda>log c. None) [(ustr ''u'', ustr ''https%3A%2F%2Fh%2Fx'')]
       = (Inr (plain (ustr ''Upstream error'') 502),
          [\<lparr>fc_url = ustr ''https://h/x'', fc_headers = DEFAULT_HEADERS, fc_stream = True,
            fc_verify = True\<rparr>,
           \<lparr>fc_url = ustr ''https://h/x'', fc_headers = DEFAULT_HEADERS, fc_stream = True,
            fc_verify = False\<rparr>])
   \<and> download (\<lambda>s. s) (\<lambda>_. True) (\<lambda>log c. None) [(ustr ''u'', ustr ''https%3A%2F%2Fh%2Fx'')]
       = (Inr (plain (ustr ''Upstream error'') 502),
          [\<lparr>fc_url = ustr ''https://h/x'', fc_headers = DEFAULT_HEADERS, fc_stream = False,
            fc_verify = True\<rparr>,
           \<lparr>fc_url = ustr ''https://h/x'', fc_headers = DEFAULT_HEADERS, fc_stream = False,
            fc_verify = False\<rparr>])
   \<and> proxy (\<lambda>s. s) (\<lambda>_. True)
        (\<lambda>log c. if fc_verify c then None
           else Some \<lparr>status_code = 206, content_type_header = Some (ustr ''video/mp2t''),
                  r_text = Inl ReadError, r_content = [7]\<rparr>)
        [(ustr ''u'', ustr ''https%3A%2F%2Fh%2Fx'')]
       = (Inr \<lparr>status = 206,
               headers = [(ustr ''Content-Type'', ustr ''video/mp2t''),
                          (ustr ''Access-Control-Allow-Origin'', ustr ''*''),
                          (ustr ''Cache-Control'', ustr ''no-cache'')],
               body = Stream [7]\<rparr>,
          [\<lparr>fc_url = ustr ''https://h/x'', fc_headers = DEFAULT_HEADERS, fc_stream = True,
            fc_verify = True\<rparr>,
           \<lparr>fc_url = ustr ''https://h/x'', fc_headers = DEFAULT_HEADERS, fc_stream = True,
            fc_verify = False\<rparr>])"
  using retry_once_then_502 [where a = "[(ustr ''u'', ustr ''https%3A%2F%2Fh%2Fx'')]"
      and u = "ustr ''https%3A%2F%2Fh%2Fx''" and ul = "\<lambda>s. s" and ok = "\<lambda>_. True"
      and net = "\<lambda>log c. None"]
  by (simp add: args_get_def proxy_def download_def forward_request_def Let_def
        unquote_def is_hex_def is_digit_def hexval_def startswith_def
        proxy_answer_def is_manifest_def endswith_def lower_def lower_cp_def
        Response_def has_newline_def)

section \<open>The loop over the lines\<close>

text \<open>One turn of the loop, and the loop as a whole: \<open>acc\<close> is \<^verbatim>\<open>out_lines\<close> before the
  loop, \<open>news\<close> the lines it appends.\<close>

lemma rewrite_lines_step:
  "rewrite_lines ok base (ln # lns) acc = Inr outs \<longleftrightarrow>
     (\<exists>out. rewrite_lines ok base lns (acc @ [out]) = Inr outs \<and>
        (if ln = [] \<or> startswith ln (ustr ''#'') then out = ln
         else \<exists>absu q. resolve_absolute ok (strip ln) base = Inr absu
                \<and> quote (prefer_https absu) [] = Inr q \<and> out = ustr ''/proxy?u='' @ q))"
  by (auto split: sum.splits)

lemma rewrite_lines_acc:
  "rewrite_lines ok base lns acc = Inr outs \<longleftrightarrow>
     (\<exists>news. outs = acc @ news \<and> length news = length lns \<and>
        (\<forall>i < length lns.
           if lns ! i = [] \<or> startswith (lns ! i) (ustr ''#'') then news ! i = lns ! i
           else \<exists>absu q. resolve_absolute ok (strip (lns ! i)) base = Inr absu
                  \<and> quote (prefer_https absu) [] = Inr q
                  \<and> news ! i = ustr ''/proxy?u='' @ q))"
proof (induction lns arbitrary: acc)
  case Nil
  show ?case by auto
next
  case (Cons ln lns)
  let ?R = "\<lambda>l out. if l = [] \<or> startswith l (ustr ''#'') then out = l
         else \<exists>absu q. resolve_absolute ok (strip l) base = Inr absu
                \<and> quote (prefer_https absu) [] = Inr q \<and> out = ustr ''/proxy?u='' @ q"
  have ih: "\<And>a. rewrite_lines ok base lns a = Inr outs \<longleftrightarrow>
     (\<exists>news. outs = a @ news \<and> length news = length lns \<and>
        (\<forall>i < length lns. ?R (lns ! i) (news ! i)))"
    using Cons.IH by simp
  have st: "rewrite_lines ok base (ln # lns) acc = Inr outs \<longleftrightarrow>
     (\<exists>out. rewrite_lines ok base lns (acc @ [out]) = Inr outs \<and> ?R ln out)"
    by (rule rewrite_lines_step)
  have "rewrite_lines ok base (ln # lns) acc = Inr outs \<longleftrightarrow>
     (\<exists>news. outs = acc @ news \<and> length news = length (ln # lns) \<and>
        (\<forall>i < length (ln # lns). ?R ((ln # lns) ! i) (news ! i)))"
  proof
    assume "rewrite_lines ok base (ln # lns) acc = Inr outs"
    then obtain out where r: "rewrite_lines ok base lns (acc @ [out]) = Inr outs"
      and o: "?R ln out"
      using st by blast
    from r obtain news where n: "outs = (acc @ [out]) @ news" "length news = length lns"
      "\<forall>i < length lns. ?R (lns ! i) (news ! i)"
      using ih by blast
    have "\<forall>i < length (ln # lns). ?R ((ln # lns) ! i) ((out # news) ! i)"
    proof (intro allI impI)
      fix i assume "i < length (ln # lns)"
      then show "?R ((ln # lns) ! i) ((out # news) ! i)"
        using o n(3) by (cases i) auto
    qed
    moreover have "outs = acc @ (out # news)" "length (out # news) = length (ln # lns)"
      using n by simp_all
    ultimately show "\<exists>news. outs = acc @ news \<and> length news = length (ln # lns) \<and>
        (\<forall>i < length (ln # lns). ?R ((ln # lns) ! i) (news ! i))"
      by blast
  next
    assume "\<exists>news. outs = acc @ news \<and> length news = length (ln # lns) \<and>
        (\<forall>i < length (ln # lns). ?R ((ln # lns) ! i) (news ! i))"
    then obtain news where n: "outs = acc @ news" "length news = length (ln # lns)"
      "\<forall>i < length (ln # lns). ?R ((ln # lns) ! i) (news ! i)"
      by blast
    then obtain out rest where nr: "news = out # rest"
      by (cases news) auto
    have o: "?R ln out"
      using n(3) [rule_format, of 0] nr by (auto split: if_splits)
    have "\<forall>i < length lns. ?R (lns ! i) (rest ! i)"
    proof (intro allI impI)
      fix i assume "i < length lns"
      then show "?R (lns ! i) (rest ! i)"
        using n(3) [rule_format, of "Suc i"] nr by (auto split: if_splits)
    qed
    moreover have "outs = (acc @ [out]) @ rest" "length rest = length lns"
      using n nr by simp_all
    ultimately have "rewrite_lines ok base lns (acc @ [out]) = Inr outs"
      using ih by blast
    with o show "rewrite_lines ok base (ln # lns) acc = Inr outs"
      using st by blast
  qed
  then show ?case by simp
qed


text \<open>The definitions that evaluate a URL and a quotation.\<close>

lemmas url_defs = urljoin_def urlparse_def urlsplit_def split_scheme_def urlunparse_def
  urlunsplit_def splitparams_def filter_middle_def uses_relative_def uses_netloc_def
  uses_params_def c0_or_space_def unsafe_url_char_def scheme_char_def netloc_delim_def
  is_upper_def is_lower_def is_digit_def lower_cp_def str_split_def Let_def

lemmas quote_defs = quote_def quote_from_bytes_def quoter_def utf8_encode_cp_def
  always_safe_def is_upper_def is_lower_def is_digit_def hexdigit_def



section \<open>A rewrite that fails\<close>

lemma rewrite_lines_fails:
  assumes "i < length lns" and "lns ! i \<noteq> []" and "\<not> startswith (lns ! i) (ustr ''#'')"
      and "\<forall>absu q. resolve_absolute ok (strip (lns ! i)) base = Inr absu
              \<longrightarrow> quote (prefer_https absu) [] \<noteq> Inr q"
  shows "\<exists>e. rewrite_lines ok base lns acc = Inl e"
proof (cases "rewrite_lines ok base lns acc")
  case (Inl e)
  then show ?thesis by blast
next
  case (Inr outs)
  then obtain news where
    "\<forall>j < length lns.
       if lns ! j = [] \<or> startswith (lns ! j) (ustr ''#'') then news ! j = lns ! j
       else \<exists>absu q. resolve_absolute ok (strip (lns ! j)) base = Inr absu
              \<and> quote (prefer_https absu) [] = Inr q
              \<and> news ! j = ustr ''/proxy?u='' @ q"
    unfolding rewrite_lines_acc by blast
  then have "\<exists>absu q. resolve_absolute ok (strip (lns ! i)) base = Inr absu
              \<and> quote (prefer_https absu) [] = Inr q"
    using assms(1,2,3) by (auto split: if_splits)
  then show ?thesis using assms(4) by blast
qed

lemma rewrite_manifest_fails:
  assumes "r_text r = Inr text" and "i < length (splitlines text)"
      and "splitlines text ! i \<noteq> []"
      and "\<not> startswith (splitlines text ! i) (ustr ''#'')"
      and "\<forall>absu q. resolve_absolute ok (strip (splitlines text ! i))
                (hd (rsplit1 target 47) @ ustr ''/'') = Inr absu
              \<longrightarrow> quote (prefer_https absu) [] \<noteq> Inr q"
  shows "\<exists>e. rewrite_manifest ok r target = Inl e"
proof -
  from rewrite_lines_fails [OF assms(2,3,4,5), of "[]"] obtain e where
    "rewrite_lines ok (hd (rsplit1 target 47) @ ustr ''/'') (splitlines text) [] = Inl e"
    by blast
  then show ?thesis
    unfolding rewrite_manifest_def Let_def using assms(1) by simp
qed

text \<open>
  Claim C8.  Take a resource classified as a playlist whose text was read, and in it a
  line that is neither empty nor a comment and for which the resolution raises, or the
  quotation of the resolved and upgraded URL raises.  Then \<^verbatim>\<open>proxy\<close> answers with the
  message \<^verbatim>\<open>Manifest rewrite failed\<close> and \<^verbatim>\<open>download\<close> with
  \<^verbatim>\<open>Failed to rewrite manifest\<close>, both with status 500: the exception does not leave
  the handler, and the answer holds none of the lines rewritten before the failure.
\<close>

theorem rewrite_failure_500:
  assumes "is_manifest ul target
      (lower ul (case content_type_header r of None \<Rightarrow> [] | Some c \<Rightarrow> c))"
      and "r_text r = Inr t" and "i < length (splitlines t)"
      and "splitlines t ! i \<noteq> []"
      and "\<not> startswith (splitlines t ! i) (ustr ''#'')"
      and "\<forall>absu q. resolve_absolute ok (strip (splitlines t ! i))
                (hd (rsplit1 target 47) @ ustr ''/'') = Inr absu
              \<longrightarrow> quote (prefer_https absu) [] \<noteq> Inr q"
  shows "proxy_answer ul ok target r = Inr (plain (ustr ''Manifest rewrite failed'') 500)
     \<and> download_answer ul ok target r = Inr (plain (ustr ''Failed to rewrite manifest'') 500)"
proof -
  from rewrite_manifest_fails [OF assms(2,3,4,5,6)] obtain e where
    e: "rewrite_manifest ok r target = Inl e"
    by blast
  show ?thesis
    unfolding proxy_answer_playlist [OF assms(1)] download_answer_playlist [OF assms(1)] e
    by simp
qed

lemma bad_bracket:
  "urljoin ok (ustr ''https://h/'') (ustr ''//[x'') = Inl ValueError"
  by (simp add: url_defs)

lemma surrogate_quote: "quote (ustr ''https://h/'' @ [55296]) [] = Inl UnicodeEncodeError"
  by (simp add: quote_defs)

theorem rewrite_failure_500_witness:
  "is_manifest (\<lambda>s. s) (ustr ''https://h/a.m3u8'') (lower (\<lambda>s. s) [])
   \<and> splitlines (ustr ''#EXTM3U'' @ [10] @ ustr ''//[x'' @ [10] @ ustr ''seg1.ts'')
       = [ustr ''#EXTM3U'', ustr ''//[x'', ustr ''seg1.ts'']
   \<and> resolve_absolute (\<lambda>_. True) (strip (ustr ''//[x'')) (ustr ''https://h/'')
       = Inl ValueError
   \<and> proxy_answer (\<lambda>s. s) (\<lambda>_. True) (ustr ''https://h/a.m3u8'')
        \<lparr>status_code = 200, content_type_header = None,
         r_text = Inr (ustr ''#EXTM3U'' @ [10] @ ustr ''//[x'' @ [10] @ ustr ''seg1.ts''),
         r_content = []\<rparr>
       = Inr (plain (ustr ''Manifest rewrite failed'') 500)
   \<and> download_answer (\<lambda>s. s) (\<lambda>_. True) (ustr ''https://h/a.m3u8'')
        \<lparr>status_code = 200, content_type_header = None,
         r_text = Inr (ustr ''#EXTM3U'' @ [10] @ ustr ''//[x'' @ [10] @ ustr ''seg1.ts''),
         r_content = []\<rparr>
       = Inr (plain (ustr ''Failed to rewrite manifest'') 500)"
  using rewrite_failure_500 [where ul = "\<lambda>s. s" and ok = "\<lambda>_. True"
      and target = "ustr ''https://h/a.m3u8''"
      and r = "\<lparr>status_code = 200, content_type_header = None,
         r_text = Inr (ustr ''#EXTM3U'' @ [10] @ ustr ''//[x'' @ [10] @ ustr ''seg1.ts''),
         r_content = []\<rparr>"
      and t = "ustr ''#EXTM3U'' @ [10] @ ustr ''//[x'' @ [10] @ ustr ''seg1.ts''"
      and i = 1]
    bad_bracket [of "\<lambda>_. True"]
  by (simp add: is_manifest_def endswith_def lower_def lower_cp_def splitlines_def
        is_linebreak_def resolve_absolute_def strip_def isspace_def startswith_def
        rsplit1_def)

section \<open>A line of white space\<close>

lemma strip_whitespace:
  assumes "list_all isspace ln"
  shows "strip ln = []"
proof -
  have h: "dropWhile isspace ln = []"
    using assms by (induction ln) auto
  show ?thesis unfolding strip_def h by simp
qed

lemma whitespace_not_comment:
  assumes "ln \<noteq> []" and "list_all isspace ln"
  shows "\<not> startswith ln (ustr ''#'')"
  using assms by (cases ln) (auto simp: startswith_def isspace_def)

lemma whitespace_not_reference:
  assumes "ln \<noteq> []" and "list_all isspace ln"
  shows "ustr ''/proxy?u='' @ q \<noteq> ln"
  using assms by (cases ln) (auto simp: isspace_def)

lemma resolve_empty: "resolve_absolute ok [] base = Inr base"
  by (simp add: resolve_absolute_def urljoin_def startswith_def)

text \<open>
  Claim C10, as the code has it.  A line that is not empty and holds white space only
  (as \<^verbatim>\<open>str.strip\<close> sees it) is not passed through: it is no comment, it is stripped
  to the empty string, and the empty string resolves to the base URL itself.  The step of
  the loop then upgrades the scheme of the base URL and quotes it: the line is replaced by
  \<^verbatim>\<open>/proxy?u=\<close> followed by the quoted base URL with \<^verbatim>\<open>https://\<close> in the place of a
  leading \<^verbatim>\<open>http://\<close>, and the loop goes on; when the quotation raises, the loop ends
  with that exception.  The new line is never the old one.
\<close>

theorem whitespace_line_rewritten:
  assumes "ln \<noteq> []" and "list_all isspace ln"
  shows "strip ln = []
     \<and> resolve_absolute ok (strip ln) base = Inr base
     \<and> rewrite_lines ok base (ln # lns) acc =
         (case quote (prefer_https base) [] of
            Inl e \<Rightarrow> Inl e
          | Inr q \<Rightarrow> rewrite_lines ok base lns (acc @ [ustr ''/proxy?u='' @ q]))
     \<and> (\<forall>q. ustr ''/proxy?u='' @ q \<noteq> ln)"
proof -
  have s: "strip ln = []"
    using assms(2) by (rule strip_whitespace)
  have c: "\<not> (ln = [] \<or> startswith ln (ustr ''#''))"
    using assms whitespace_not_comment by blast
  have "rewrite_lines ok base (ln # lns) acc =
         (case quote (prefer_https base) [] of
            Inl e \<Rightarrow> Inl e
          | Inr q \<Rightarrow> rewrite_lines ok base lns (acc @ [ustr ''/proxy?u='' @ q]))"
    using c s resolve_empty [of ok base] by (simp split: sum.splits)
  then show ?thesis
    using s resolve_empty [of ok base] whitespace_not_reference [OF assms] by simp
qed

lemma http_base_quote:
  "quote (ustr ''http://h/p/'') [] = Inr (ustr ''http%3A%2F%2Fh%2Fp%2F'')"
  by (simp add: quote_defs)

lemma https_base_quote:
  "quote (prefer_https (ustr ''http://h/p/'')) [] = Inr (ustr ''https%3A%2F%2Fh%2Fp%2F'')"
  by (simp add: prefer_https_def startswith_def quote_defs)

theorem whitespace_line_rewritten_witness:
  "[32, 9] \<noteq> ([] :: pystr) \<and> list_all isspace [32, 9]
   \<and> strip [32, 9] = []
   \<and> rewrite_lines (\<lambda>_. True) (ustr ''http://h/p/'') [[32, 9]] []
       = Inr [ustr ''/proxy?u=https%3A%2F%2Fh%2Fp%2F'']"
  using whitespace_line_rewritten [of "[32, 9]" "\<lambda>_. True" "ustr ''http://h/p/''" "[]" "[]"]
    https_base_quote
  by (simp add: isspace_def)

lemma whitespace_line_rewritten_aux:
  "rewrite_lines (\<lambda>_. True) (ustr ''http://h/p/'') [[32]] []
     = (case quote (prefer_https (ustr ''http://h/p/'')) [] of
          Inl e \<Rightarrow> Inl e
        | Inr q \<Rightarrow> Inr [ustr ''/proxy?u='' @ q])"
  using resolve_empty [of "\<lambda>_. True" "ustr ''http://h/p/''"]
  by (simp add: strip_def isspace_def startswith_def split: sum.splits)

text \<open>
  Claim C10 as it was stated, with the base URL itself in the reference, fails for a base
  that begins with \<^verbatim>\<open>http://\<close>: for the base \<^verbatim>\<open>http://h/p/\<close> a line of one space
  becomes \<^verbatim>\<open>/proxy?u=https%3A%2F%2Fh%2Fp%2F\<close>, not \<^verbatim>\<open>/proxy?u=http%3A%2F%2Fh%2Fp%2F\<close>.
\<close>

theorem whitespace_line_counterexample:
  "\<not> (\<forall>ok base ln q. ln \<noteq> [] \<longrightarrow> list_all isspace ln \<longrightarrow> quote base [] = Inr q \<longrightarrow>
         rewrite_lines ok base [ln] [] = Inr [ustr ''/proxy?u='' @ q])"
proof
  assume "\<forall>ok base ln q. ln \<noteq> [] \<longrightarrow> list_all isspace ln \<longrightarrow> quote base [] = Inr q \<longrightarrow>
         rewrite_lines ok base [ln] [] = Inr [ustr ''/proxy?u='' @ q]"
  then have "[32] \<noteq> ([] :: pystr) \<longrightarrow> list_all isspace [32] \<longrightarrow>
      quote (ustr ''http://h/p/'') [] = Inr (ustr ''http%3A%2F%2Fh%2Fp%2F'') \<longrightarrow>
      rewrite_lines (\<lambda>_. True) (ustr ''http://h/p/'') [[32]] []
        = Inr [ustr ''/proxy?u='' @ ustr ''http%3A%2F%2Fh%2Fp%2F'']"
    by blast
  then have a: "rewrite_lines (\<lambda>_. True) (ustr ''http://h/p/'') [[32]] []
        = Inr [ustr ''/proxy?u='' @ ustr ''http%3A%2F%2Fh%2Fp%2F'']"
    using http_base_quote by (simp add: isspace_def)
  have b: "rewrite_lines (\<lambda>_. True) (ustr ''http://h/p/'') [[32]] []
        = Inr [ustr ''/proxy?u=https%3A%2F%2Fh%2Fp%2F'']"
    using whitespace_line_rewritten_aux https_base_quote by simp
  from a b show False by simp
qed

section \<open>The playlist of the first scenario\<close>

subsection \<open>Lines and their terminators\<close>

text \<open>\<^verbatim>\<open>splitlines\<close> gives back the lines of a text in which every line is followed by
  the same terminator, a line feed, a carriage return or the pair of them.\<close>

lemma splitlines_from_Cons:
  "splitlines_from cur (c # cs) =
     (if is_linebreak c
      then cur # (if c = 13 \<and> cs \<noteq> [] \<and> hd cs = 10 then splitlines_from [] (tl cs)
                  else splitlines_from [] cs)
      else splitlines_from (cur @ [c]) cs)"
  by (cases cs) auto

lemma splitlines_from_line:
  "list_all (\<lambda>c. \<not> is_linebreak c) l \<Longrightarrow>
     splitlines_from cur (l @ rest) = splitlines_from (cur @ l) rest"
proof (induction l arbitrary: cur)
  case Nil
  show ?case by simp
next
  case (Cons c l)
  have "splitlines_from cur ((c # l) @ rest) = splitlines_from (cur @ [c]) (l @ rest)"
    using Cons.prems by (simp add: splitlines_from_Cons del: splitlines_from.simps)
  also have "\<dots> = splitlines_from ((cur @ [c]) @ l) rest"
    using Cons.prems by (intro Cons.IH) simp
  finally show ?case by simp
qed

lemma terminated_lines_head:
  assumes "list_all (list_all (\<lambda>c. \<not> is_linebreak c)) ls"
  shows "concat (map (\<lambda>l. l @ [13]) ls) = [] \<or> hd (concat (map (\<lambda>l. l @ [13]) ls)) \<noteq> 10"
proof (cases ls)
  case Nil
  then show ?thesis by simp
next
  case (Cons l ls')
  show ?thesis
  proof (cases l)
    case Nil
    with Cons show ?thesis by simp
  next
    case (Cons c l')
    with \<open>ls = l # ls'\<close> assms have "\<not> is_linebreak c" by simp
    hence "c \<noteq> 10" by (auto simp add: is_linebreak_def)
    with Cons \<open>ls = l # ls'\<close> show ?thesis by simp
  qed
qed

lemma splitlines_from_terminated:
  assumes "list_all (list_all (\<lambda>c. \<not> is_linebreak c)) ls"
    and "e = [10] \<or> e = [13] \<or> e = [13, 10]"
  shows "splitlines_from [] (concat (map (\<lambda>l. l @ e) ls)) = ls"
  using assms(1)
proof (induction ls)
  case Nil
  show ?case by simp
next
  case (Cons l ls)
  have l: "list_all (\<lambda>c. \<not> is_linebreak c) l"
    and ls: "list_all (list_all (\<lambda>c. \<not> is_linebreak c)) ls"
    using Cons.prems by simp_all
  have IH: "splitlines_from [] (concat (map (\<lambda>l. l @ e) ls)) = ls"
    using Cons.IH ls by simp
  have "splitlines_from [] (concat (map (\<lambda>l. l @ e) (l # ls)))
      = splitlines_from l (e @ concat (map (\<lambda>l. l @ e) ls))"
    using splitlines_from_line [OF l, of "[]" "e @ concat (map (\<lambda>l. l @ e) ls)"] by simp
  also have "\<dots> = l # splitlines_from [] (concat (map (\<lambda>l. l @ e) ls))"
  proof -
    consider "e = [10]" | "e = [13]" | "e = [13, 10]" using assms(2) by blast
    then show ?thesis
    proof cases
      case 1
      then show ?thesis
        by (simp add: splitlines_from_Cons is_linebreak_def del: splitlines_from.simps)
    next
      case 2
      then show ?thesis
        using terminated_lines_head [OF ls]
        by (auto simp add: splitlines_from_Cons is_linebreak_def simp del: splitlines_from.simps)
    next
      case 3
      then show ?thesis
        by (simp add: splitlines_from_Cons is_linebreak_def del: splitlines_from.simps)
    qed
  qed
  finally show ?case using IH by simp
qed

lemma rewrite_manifest_terminated:
  assumes "list_all (list_all (\<lambda>c. \<not> is_linebreak c)) ls"
    and "e = [10] \<or> e = [13] \<or> e = [13, 10]"
  shows "rewrite_manifest ok (r\<lparr>r_text := Inr (concat (map (\<lambda>l. l @ e) ls))\<rparr>) target
     = (case rewrite_lines ok (hd (rsplit1 target 47) @ ustr ''/'') ls [] of
          Inl x \<Rightarrow> Inl x
        | Inr out_lines \<Rightarrow> Inr (join [10] out_lines))"
  using splitlines_from_terminated [OF assms]
  by (simp add: rewrite_manifest_def splitlines_def)

subsection \<open>The scenario\<close>

lemma scenario_lines:
  "splitlines (ustr ''#EXTM3U'' @ [10] @ ustr ''#EXT-X-VERSION:3'' @ [10] @ ustr ''seg1.ts''
       @ [10] @ ustr ''http://cdn.example.com/seg2.ts'' @ [10])
   = [ustr ''#EXTM3U'', ustr ''#EXT-X-VERSION:3'', ustr ''seg1.ts'',
      ustr ''http://cdn.example.com/seg2.ts'']"
  by (simp add: splitlines_def is_linebreak_def)

lemma scenario_base:
  "hd (rsplit1 (ustr ''https://origin.example.com/path/index.m3u8'') 47) @ ustr ''/''
   = ustr ''https://origin.example.com/path/''"
  by (simp add: rsplit1_def)

lemma scenario_join:
  "urljoin ok (ustr ''https://origin.example.com/path/'') (ustr ''seg1.ts'')
   = Inr (ustr ''https://origin.example.com/path/seg1.ts'')"
  by (simp add: url_defs)

lemma scenario_rewrite_lines:
  "rewrite_lines ok (ustr ''https://origin.example.com/path/'')
     [ustr ''#EXTM3U'', ustr ''#EXT-X-VERSION:3'', ustr ''seg1.ts'',
      ustr ''http://cdn.example.com/seg2.ts''] []
   = Inr [ustr ''#EXTM3U'', ustr ''#EXT-X-VERSION:3'',
          ustr ''/proxy?u=https%3A%2F%2Forigin.example.com%2Fpath%2Fseg1.ts'',
          ustr ''/proxy?u=https%3A%2F%2Fcdn.example.com%2Fseg2.ts'']"
proof -
  have r1: "resolve_absolute ok (strip (ustr ''seg1.ts'')) (ustr ''https://origin.example.com/path/'')
      = Inr (ustr ''https://origin.example.com/path/seg1.ts'')"
    using scenario_join [of ok]
    by (simp add: resolve_absolute_def strip_def isspace_def startswith_def)
  have r2: "resolve_absolute ok (strip (ustr ''http://cdn.example.com/seg2.ts''))
        (ustr ''https://origin.example.com/path/'')
      = Inr (ustr ''http://cdn.example.com/seg2.ts'')"
    by (simp add: resolve_absolute_def strip_def isspace_def startswith_def)
  have q1: "quote (prefer_https (ustr ''https://origin.example.com/path/seg1.ts'')) []
      = Inr (ustr ''https%3A%2F%2Forigin.example.com%2Fpath%2Fseg1.ts'')"
    by (simp add: prefer_https_def startswith_def quote_defs)
  have q2: "quote (prefer_https (ustr ''http://cdn.example.com/seg2.ts'')) []
      = Inr (ustr ''https%3A%2F%2Fcdn.example.com%2Fseg2.ts'')"
    by (simp add: prefer_https_def startswith_def quote_defs)
  show ?thesis
    using r1 r2 q1 q2 by (simp add: startswith_def)
qed

lemma scenario_manifest_rewritten:
  "rewrite_manifest ok
     \<lparr>status_code = sc, content_type_header = ct,
      r_text = Inr (ustr ''#EXTM3U'' @ [10] @ ustr ''#EXT-X-VERSION:3'' @ [10] @ ustr ''seg1.ts''
         @ [10] @ ustr ''http://cdn.example.com/seg2.ts'' @ [10]),
      r_content = bs\<rparr>
     (ustr ''https://origin.example.com/path/index.m3u8'')
   = Inr (ustr ''#EXTM3U'' @ [10] @ ustr ''#EXT-X-VERSION:3'' @ [10]
        @ ustr ''/proxy?u=https%3A%2F%2Forigin.example.com%2Fpath%2Fseg1.ts'' @ [10]
        @ ustr ''/proxy?u=https%3A%2F%2Fcdn.example.com%2Fseg2.ts'')"
  unfolding rewrite_manifest_def Let_def
  using scenario_lines scenario_base scenario_rewrite_lines [of ok]
  by simp

lemma scenario_manifest:
  "is_manifest ul (ustr ''https://origin.example.com/path/index.m3u8'') c"
  by (simp add: is_manifest_def lower_def lower_cp_def endswith_def)

text \<open>
  Claim C1.  The playlist of four lines, each followed by a line feed, fetched from
  \<^verbatim>\<open>https://origin.example.com/path/index.m3u8\<close>: the rewrite gives the two tag lines
  and the two proxy references joined by line feeds, and no line feed follows the last
  line; \<^verbatim>\<open>proxy\<close> answers with status 200 and this text.  In general, for a text whose
  lines hold no line boundary and are each followed by the same terminator (line feed,
  carriage return, or carriage return and line feed), the result is the rewritten lines
  joined by line feeds, whichever terminator the input had.
\<close>

theorem scenario_rewrite_output:
  "rewrite_manifest ok
     \<lparr>status_code = sc, content_type_header = ct,
      r_text = Inr (ustr ''#EXTM3U'' @ [10] @ ustr ''#EXT-X-VERSION:3'' @ [10] @ ustr ''seg1.ts''
         @ [10] @ ustr ''http://cdn.example.com/seg2.ts'' @ [10]),
      r_content = bs\<rparr>
     (ustr ''https://origin.example.com/path/index.m3u8'')
   = Inr (ustr ''#EXTM3U'' @ [10] @ ustr ''#EXT-X-VERSION:3'' @ [10]
        @ ustr ''/proxy?u=https%3A%2F%2Forigin.example.com%2Fpath%2Fseg1.ts'' @ [10]
        @ ustr ''/proxy?u=https%3A%2F%2Fcdn.example.com%2Fseg2.ts'')
   \<and> proxy_answer ul ok (ustr ''https://origin.example.com/path/index.m3u8'')
     \<lparr>status_code = sc, content_type_header = ct,
      r_text = Inr (ustr ''#EXTM3U'' @ [10] @ ustr ''#EXT-X-VERSION:3'' @ [10] @ ustr ''seg1.ts''
         @ [10] @ ustr ''http://cdn.example.com/seg2.ts'' @ [10]),
      r_content = bs\<rparr>
   = Inr \<lparr>status = 200,
          headers = [(ustr ''Content-Type'', ustr ''application/vnd.apple.mpegurl''),
                     (ustr ''Access-Control-Allow-Origin'', ustr ''*''),
                     (ustr ''Cache-Control'', ustr ''no-cache'')],
          body = Text (ustr ''#EXTM3U'' @ [10] @ ustr ''#EXT-X-VERSION:3'' @ [10]
        @ ustr ''/proxy?u=https%3A%2F%2Forigin.example.com%2Fpath%2Fseg1.ts'' @ [10]
        @ ustr ''/proxy?u=https%3A%2F%2Fcdn.example.com%2Fseg2.ts'')\<rparr>
   \<and> (list_all (list_all (\<lambda>c. \<not> is_linebreak c)) ls
        \<and> (e = [10] \<or> e = [13] \<or> e = [13, 10]) \<longrightarrow>
      rewrite_manifest ok (r\<lparr>r_text := Inr (concat (map (\<lambda>l. l @ e) ls))\<rparr>) target
       = (case rewrite_lines ok (hd (rsplit1 target 47) @ ustr ''/'') ls [] of
            Inl x \<Rightarrow> Inl x
          | Inr out_lines \<Rightarrow> Inr (join [10] out_lines)))"
proof (intro conjI impI)
  show "rewrite_manifest ok
     \<lparr>status_code = sc, content_type_header = ct,
      r_text = Inr (ustr ''#EXTM3U'' @ [10] @ ustr ''#EXT-X-VERSION:3'' @ [10] @ ustr ''seg1.ts''
         @ [10] @ ustr ''http://cdn.example.com/seg2.ts'' @ [10]),
      r_content = bs\<rparr>
     (ustr ''https://origin.example.com/path/index.m3u8'')
   = Inr (ustr ''#EXTM3U'' @ [10] @ ustr ''#EXT-X-VERSION:3'' @ [10]
        @ ustr ''/proxy?u=https%3A%2F%2Forigin.example.com%2Fpath%2Fseg1.ts'' @ [10]
        @ ustr ''/proxy?u=https%3A%2F%2Fcdn.example.com%2Fseg2.ts'')"
    by (rule scenario_manifest_rewritten)
next
  show "proxy_answer ul ok (ustr ''https://origin.example.com/path/index.m3u8'')
     \<lparr>status_code = sc, content_type_header = ct,
      r_text = Inr (ustr ''#EXTM3U'' @ [10] @ ustr ''#EXT-X-VERSION:3'' @ [10] @ ustr ''seg1.ts''
         @ [10] @ ustr ''http://cdn.example.com/seg2.ts'' @ [10]),
      r_content = bs\<rparr>
   = Inr \<lparr>status = 200,
          headers = [(ustr ''Content-Type'', ustr ''application/vnd.apple.mpegurl''),
                     (ustr ''Access-Control-Allow-Origin'', ustr ''*''),
                     (ustr ''Cache-Control'', ustr ''no-cache'')],
          body = Text (ustr ''#EXTM3U'' @ [10] @ ustr ''#EXT-X-VERSION:3'' @ [10]
        @ ustr ''/proxy?u=https%3A%2F%2Forigin.example.com%2Fpath%2Fseg1.ts'' @ [10]
        @ ustr ''/proxy?u=https%3A%2F%2Fcdn.example.com%2Fseg2.ts'')\<rparr>"
    unfolding proxy_answer_playlist [OF scenario_manifest] scenario_manifest_rewritten
    by simp
next
  assume "list_all (list_all (\<lambda>c. \<not> is_linebreak c)) ls
        \<and> (e = [10] \<or> e = [13] \<or> e = [13, 10])"
  then show "rewrite_manifest ok (r\<lparr>r_text := Inr (concat (map (\<lambda>l. l @ e) ls))\<rparr>) target
       = (case rewrite_lines ok (hd (rsplit1 target 47) @ ustr ''/'') ls [] of
            Inl x \<Rightarrow> Inl x
          | Inr out_lines \<Rightarrow> Inr (join [10] out_lines))"
    using rewrite_manifest_terminated [of ls e ok r target] by simp
qed

text \<open>The same playlist with carriage return and line feed after every line gives the
  same text.\<close>

theorem scenario_rewrite_output_witness:
  "rewrite_manifest (\<lambda>n. True)
     \<lparr>status_code = 200, content_type_header = None,
      r_text = Inr (ustr ''#EXTM3U'' @ [13, 10] @ ustr ''#EXT-X-VERSION:3'' @ [13, 10]
         @ ustr ''seg1.ts'' @ [13, 10] @ ustr ''http://cdn.example.com/seg2.ts'' @ [13, 10]),
      r_content = []\<rparr>
     (ustr ''https://origin.example.com/path/index.m3u8'')
   = Inr (ustr ''#EXTM3U'' @ [10] @ ustr ''#EXT-X-VERSION:3'' @ [10]
        @ ustr ''/proxy?u=https%3A%2F%2Forigin.example.com%2Fpath%2Fseg1.ts'' @ [10]
        @ ustr ''/proxy?u=https%3A%2F%2Fcdn.example.com%2Fseg2.ts'')"
  using scenario_rewrite_output [where ok = "\<lambda>n. True" and e = "[13, 10]"
      and ls = "[ustr ''#EXTM3U'', ustr ''#EXT-X-VERSION:3'', ustr ''seg1.ts'',
                 ustr ''http://cdn.example.com/seg2.ts'']"
      and r = "\<lparr>status_code = 200, content_type_header = None, r_text = Inr [],
               r_content = []\<rparr>"
      and target = "ustr ''https://origin.example.com/path/index.m3u8''"
      and sc = 200 and ct = None and bs = "[]" and ul = "\<lambda>s. s"]
    scenario_base scenario_rewrite_lines [of "\<lambda>n. True"]
  by (simp add: is_linebreak_def del: rewrite_lines.simps)

text \<open>Claim C1 as it was stated, with a line feed after the last line, fails: that text
  is not what the rewrite returns, whatever the other fields of the upstream response
  are.\<close>

theorem scenario_trailing_newline_counterexample:
  "\<not> (\<exists>ok sc ct bs.
        rewrite_manifest ok
          \<lparr>status_code = sc, content_type_header = ct,
           r_text = Inr (ustr ''#EXTM3U'' @ [10] @ ustr ''#EXT-X-VERSION:3'' @ [10]
              @ ustr ''seg1.ts'' @ [10] @ ustr ''http://cdn.example.com/seg2.ts'' @ [10]),
           r_content = bs\<rparr>
          (ustr ''https://origin.example.com/path/index.m3u8'')
        = Inr (ustr ''#EXTM3U'' @ [10] @ ustr ''#EXT-X-VERSION:3'' @ [10]
            @ ustr ''/proxy?u=https%3A%2F%2Forigin.example.com%2Fpath%2Fseg1.ts'' @ [10]
            @ ustr ''/proxy?u=https%3A%2F%2Fcdn.example.com%2Fseg2.ts'' @ [10]))"
  unfolding scenario_manifest_rewritten by simp

section \<open>The file name of a download\<close>

text \<open>Line 115 cuts the target at its last slash before it cuts at the question mark, so
  a slash in the query string moves the cut into the query string.\<close>

lemma filename_plain:
  "filename_of (ustr ''https://host/video/a.mp4?x=1'') = ustr ''a.mp4''"
  by (simp add: filename_of_def str_split_def unquote_def)

lemma filename_slash:
  "filename_of (ustr ''https://host/video/a.mp4?x=1/2'') = ustr ''2''"
  by (simp add: filename_of_def str_split_def unquote_def)

lemma spec_filename_plain:
  "spec_filename ok (ustr ''https://host/video/a.mp4?x=1'') = Inr (ustr ''a.mp4'')"
  by (simp add: spec_filename_def url_defs unquote_def)

lemma spec_filename_slash:
  "spec_filename ok (ustr ''https://host/video/a.mp4?x=1/2'') = Inr (ustr ''a.mp4'')"
  by (simp add: spec_filename_def url_defs unquote_def)

lemma a_mp4_binary:
  "\<not> is_manifest ul (ustr ''https://host/video/a.mp4?x=1/2'')
        (lower ul (case content_type_header
            \<lparr>status_code = sc, content_type_header = Some (ustr ''video/mp4''),
             r_text = t, r_content = bs\<rparr> of None \<Rightarrow> [] | Some c \<Rightarrow> c))"
  by (simp add: is_manifest_def lower_def lower_cp_def endswith_def startswith_def)

text \<open>
  Claim C9.  For the target \<^verbatim>\<open>https://host/video/a.mp4?x=1\<close> the file name of line 115
  and the last path segment agree: \<^verbatim>\<open>a.mp4\<close>.  For the target
  \<^verbatim>\<open>https://host/video/a.mp4?x=1/2\<close>, whose query string holds a slash, the last path
  segment is still \<^verbatim>\<open>a.mp4\<close>, the file name of line 115 is \<^verbatim>\<open>2\<close>, and \<^verbatim>\<open>download\<close>
  answers with \<^verbatim>\<open>Content-Disposition: attachment; filename="2"\<close>.
\<close>

theorem filename_query_slash:
  "filename_of (ustr ''https://host/video/a.mp4?x=1'') = ustr ''a.mp4''
   \<and> spec_filename ok (ustr ''https://host/video/a.mp4?x=1'') = Inr (ustr ''a.mp4'')
   \<and> filename_of (ustr ''https://host/video/a.mp4?x=1/2'') = ustr ''2''
   \<and> spec_filename ok (ustr ''https://host/video/a.mp4?x=1/2'') = Inr (ustr ''a.mp4'')
   \<and> download_answer ul ok (ustr ''https://host/video/a.mp4?x=1/2'')
        \<lparr>status_code = sc, content_type_header = Some (ustr ''video/mp4''),
         r_text = t, r_content = bs\<rparr>
      = Inr \<lparr>status = sc,
             headers = [(ustr ''Content-Type'', ustr ''video/mp4''),
                        (ustr ''Content-Disposition'',
                           ustr ''attachment; filename='' @ [34] @ ustr ''2'' @ [34]),
                        (ustr ''Access-Control-Allow-Origin'', ustr ''*''),
                        (ustr ''Cache-Control'', ustr ''no-cache'')],
             body = Stream bs\<rparr>"
proof (intro conjI)
  show "download_answer ul ok (ustr ''https://host/video/a.mp4?x=1/2'')
        \<lparr>status_code = sc, content_type_header = Some (ustr ''video/mp4''),
         r_text = t, r_content = bs\<rparr>
      = Inr \<lparr>status = sc,
             headers = [(ustr ''Content-Type'', ustr ''video/mp4''),
                        (ustr ''Content-Disposition'',
                           ustr ''attachment; filename='' @ [34] @ ustr ''2'' @ [34]),
                        (ustr ''Access-Control-Allow-Origin'', ustr ''*''),
                        (ustr ''Cache-Control'', ustr ''no-cache'')],
             body = Stream bs\<rparr>"
    unfolding download_answer_binary [OF a_mp4_binary] filename_slash
    by (simp add: lower_def lower_cp_def has_newline_def)
qed (use filename_slash filename_plain spec_filename_slash [of ok] spec_filename_plain [of ok]
     in simp_all)

end
